theory Spec2Isabelle
  imports Complex_Main
begin

section \<open>Plan13: numeric model\<close>

text \<open>
  The C++ source computes with \<open>double\<close>, \<open>float\<close>, \<open>int\<close> and \<open>long\<close>.  In this
  development a \<open>double\<close> or \<open>float\<close> is a real number (no rounding, no NaN, no
  infinity) and an \<open>int\<close> or \<open>long\<close> is an unbounded integer; the statements below
  are about that exact-arithmetic reading of the code, except those on the round trip
  of the time of day and on the upper end of the azimuth range, which are about the
  rounded reading of the subsection on rounded arithmetic.  Where the code divides by a
  quantity that a claim lets be zero, the division is modelled with an explicit
  failure value instead of HOL's \<open>x / 0 = 0\<close>.
\<close>


subsection \<open>Casts, angle conversion, library functions\<close>

text \<open>The C casts \<open>(long) x\<close> and \<open>(int) x\<close> of a floating value: truncation toward zero.\<close>

definition trunc :: "real \<Rightarrow> int" where
  "trunc x = (if 0 \<le> x then \<lfloor>x\<rfloor> else \<lceil>x\<rceil>)"

definition RADIANS :: "real \<Rightarrow> real" where
  "RADIANS deg = deg * pi / 180"

definition DEGREES :: "real \<Rightarrow> real" where
  "DEGREES rad = rad * 180 / pi"

text \<open>
  The C library's \<open>fmod\<close> and \<open>atan2\<close> on real numbers.  \<open>atan2 y x\<close> is the angle of
  the point \<open>(x, y)\<close> in \<open>(-\<pi>, \<pi>]\<close>, and \<open>0\<close> at the origin.
\<close>

definition fmod :: "real \<Rightarrow> real \<Rightarrow> real" where
  "fmod x y = x - y * of_int (trunc (x / y))"

definition atan2 :: "real \<Rightarrow> real \<Rightarrow> real" where
  "atan2 y x =
     (if 0 < x then arctan (y / x)
      else if x < 0 then (if 0 \<le> y then arctan (y / x) + pi else arctan (y / x) - pi)
      else if 0 < y then pi / 2
      else if y < 0 then - pi / 2
      else 0)"

text \<open>A \<open>Vec3\<close> is an array of three doubles.\<close>

type_synonym Vec3 = "real \<times> real \<times> real"

definition dot :: "Vec3 \<Rightarrow> Vec3 \<Rightarrow> real" where
  "dot a b = (case a of (a0, a1, a2) \<Rightarrow> case b of (b0, b1, b2) \<Rightarrow>
                a0 * b0 + a1 * b1 + a2 * b2)"

definition vsub :: "Vec3 \<Rightarrow> Vec3 \<Rightarrow> Vec3" where
  "vsub a b = (case a of (a0, a1, a2) \<Rightarrow> case b of (b0, b1, b2) \<Rightarrow>
                 (a0 - b0, a1 - b1, a2 - b2))"

definition vlen :: "Vec3 \<Rightarrow> real" where
  "vlen a = sqrt (dot a a)"

subsection \<open>Constants of Plan13.h\<close>

text \<open>
  The header Plan13.h is not part of the sources.  The constants that the comment at the
  head of Plan13.cpp lists are taken from there.
\<close>

definition YG :: real where "YG = 2014"
definition G0 :: real where "G0 = 99.5828"
definition MAS0 :: real where "MAS0 = 356.4105"
definition MASD :: real where "MASD = 0.98560028"
definition EQC1 :: real where "EQC1 = 0.03340"
definition EQC2 :: real where "EQC2 = 0.00035"
definition INS :: real where "INS = RADIANS 23.4375"

text \<open>
  Modelled from the spec: the declarations of \<open>YM\<close>, \<open>CNS\<close> and \<open>SNS\<close> in Plan13.h are
  missing.  The spec asks for a day-number formula and its inverse; the inverse
  \<open>fndate\<close>, which is in the sources, uses the year length 365.25, so \<open>YM\<close> is that
  value.  The Sun model rotates by the obliquity of the ecliptic \<open>INS\<close>, so \<open>CNS\<close> and
  \<open>SNS\<close> are its cosine and sine.
\<close>

definition YM :: real where "YM = 365.25"
definition CNS :: real where "CNS = cos INS"
definition SNS :: real where "SNS = sin INS"

text \<open>
  The remaining constants of the header (Earth's radius and flattening, the gravitational
  parameter, \<open>J2\<close>, the rotation rates) are parameters of the model.
\<close>

record Plan13_h =
  RE :: real
  FL :: real
  GM :: real
  J2 :: real
  WW :: real
  WE :: real
  W0 :: real

subsection \<open>class DateTime\<close>

record DateTime =
  DN :: int
  TN :: real

definition fnday :: "int \<Rightarrow> int \<Rightarrow> int \<Rightarrow> int" where
  "fnday y0 m0 d =
     (let (m, y) = (if m0 < 3 then (m0 + 12, y0 - 1) else (m0, y0))
      in trunc (of_int y * YM) + trunc (of_int (m + 1) * 30.6) + d - 428)"

text \<open>\<open>fndate\<close> writes its results through the references \<open>y\<close>, \<open>m\<close>, \<open>d\<close>; the model returns them.\<close>

definition fndate :: "int \<Rightarrow> int \<times> int \<times> int" where
  "fndate dt0 =
     (let dt1 = dt0 + 428;
          y = trunc ((of_int dt1 - 122.1) / 365.25);
          dt2 = dt1 - trunc (of_int y * 365.25);
          m = trunc (of_int dt2 / 30.61);
          dt3 = dt2 - trunc (of_int m * 30.6);
          m1 = m - 1
      in if m1 > 12 then (y + 1, m1 - 12, dt3) else (y, m1, dt3))"

definition settime :: "int \<Rightarrow> int \<Rightarrow> int \<Rightarrow> int \<Rightarrow> int \<Rightarrow> int \<Rightarrow> DateTime" where
  "settime year month day h m s =
     \<lparr>DN = fnday year month day,
      TN = (of_int h + of_int m / 60 + of_int s / 3600) / 24\<rparr>"

definition gettime :: "DateTime \<Rightarrow> int \<times> int \<times> int \<times> int \<times> int \<times> int" where
  "gettime dt =
     (let (year, month, day) = fndate (DN dt);
          t0 = TN dt * 24;
          h = trunc t0;
          t1 = (t0 - of_int h) * 60;
          m = trunc t1;
          t2 = (t1 - of_int m) * 60;
          s = trunc t2
      in (year, month, day, h, m, s))"

definition add :: "DateTime \<Rightarrow> real \<Rightarrow> DateTime" where
  "add dt days =
     (let tn = TN dt + days
      in \<lparr>DN = DN dt + trunc tn, TN = tn - of_int (trunc tn)\<rparr>)"

definition roundup :: "DateTime \<Rightarrow> real \<Rightarrow> DateTime" where
  "roundup dt t =
     (let inc = t - fmod (TN dt) t;
          tn = TN dt + inc
      in \<lparr>DN = DN dt + trunc tn, TN = tn - of_int (trunc tn)\<rparr>)"

subsection \<open>class Observer\<close>

text \<open>
  The members \<open>name\<close>, \<open>U\<close>, \<open>E\<close>, \<open>N\<close>, \<open>O\<close>, \<open>V\<close> carry the prefix \<open>obs_\<close>:
  \<open>Satellite\<close> has members of the same names.
\<close>

record Observer =
  obs_name :: string
  LA :: real
  LO :: real
  HT :: real
  obs_U :: Vec3
  obs_E :: Vec3
  obs_N :: Vec3
  obs_O :: Vec3
  obs_V :: Vec3

text \<open>The constructor \<open>Observer::Observer\<close>.\<close>

definition Observer_new :: "Plan13_h \<Rightarrow> string \<Rightarrow> real \<Rightarrow> real \<Rightarrow> real \<Rightarrow> Observer" where
  "Observer_new c nm lat lng hgt =
     (let la = RADIANS lat;
          lo = RADIANS lng;
          ht = hgt / 1000;
          u0 = cos la * cos lo;
          u1 = cos la * sin lo;
          u2 = sin la;
          e0 = - sin lo;
          e1 = cos lo;
          e2 = 0;
          n0 = - sin la * cos lo;
          n1 = - sin la * sin lo;
          n2 = cos la;
          rp = RE c * (1 - FL c);
          xx = RE c * RE c;
          zz = rp * rp;
          d = sqrt (xx * cos la * cos la + zz * sin la * sin la);
          rx = xx / d + ht;
          rz = zz / d + ht;
          o0 = rx * u0;
          o1 = rx * u1;
          o2 = rz * u2
      in \<lparr>obs_name = nm, LA = la, LO = lo, HT = ht,
          obs_U = (u0, u1, u2), obs_E = (e0, e1, e2), obs_N = (n0, n1, n2),
          obs_O = (o0, o1, o2), obs_V = (- o1 * W0 c, o0 * W0 c, 0)\<rparr>)"

subsection \<open>Look angles\<close>

text \<open>
  \<open>Satellite::altaz\<close> and \<open>Sun::altaz\<close> have the same body, applied to \<open>S\<close> and to \<open>H\<close>:
  the line of sight \<open>R\<close> is the position minus the observer's position \<open>O\<close>, divided by
  its length \<open>r\<close>.  With \<open>r = 0\<close> the three divisions are \<open>0.0 / 0.0\<close>, the IEEE value
  NaN, and every later operation keeps it, the comparison \<open>az < 0.\<close> being false: both
  outputs are NaN.  \<open>asin\<close> of an argument outside \<open>[-1, 1]\<close> is NaN as well.  The
  model returns the outputs \<open>(alt, az)\<close>, each a number or NaN.
\<close>

datatype fault = NaN

definition altaz :: "Observer \<Rightarrow> Vec3 \<Rightarrow> (fault + real) \<times> (fault + real)" where
  "altaz obs P =
     (case vsub P (obs_O obs) of (R0, R1, R2) \<Rightarrow>
        let r = sqrt (R0 * R0 + R1 * R1 + R2 * R2)
        in if r = 0 then (Inl NaN, Inl NaN)
           else
             let R = (R0 / r, R1 / r, R2 / r);
                 u = dot R (obs_U obs);
                 e = dot R (obs_E obs);
                 n = dot R (obs_N obs);
                 az = DEGREES (atan2 e n);
                 az' = (if az < 0 then az + 360 else az)
             in (if \<bar>u\<bar> \<le> 1 then Inr (DEGREES (arcsin u)) else Inl NaN, Inr az'))"

subsection \<open>class Satellite: reading the element set\<close>

text \<open>
  The C library's \<open>isspace\<close> and \<open>isdigit\<close>, \<open>atol\<close> and \<open>strtod\<close>, on decimal input:
  leading white space, an optional sign, digits (for \<open>strtod\<close> with an optional point
  and an optional exponent); the value is 0 when no digit is found.  The forms
  \<open>INF\<close>, \<open>NAN\<close> and hexadecimal of \<open>strtod\<close> are not modelled.  Parsing stops at the
  first character that does not fit, the terminating NUL included.
\<close>

definition isspace :: "char \<Rightarrow> bool" where
  "isspace c = (c = CHR '' '' \<or> (9 \<le> (of_char c :: nat) \<and> (of_char c :: nat) \<le> 13))"

definition isdigit :: "char \<Rightarrow> bool" where
  "isdigit c = (48 \<le> (of_char c :: nat) \<and> (of_char c :: nat) \<le> 57)"

fun digits_val :: "nat \<Rightarrow> string \<Rightarrow> nat" where
  "digits_val acc [] = acc"
| "digits_val acc (c # cs) =
     (if isdigit c then digits_val (10 * acc + (of_char c - 48)) cs else acc)"

text \<open>An optional sign: whether it is a minus, and the rest of the text.\<close>

fun sign_of :: "string \<Rightarrow> bool \<times> string" where
  "sign_of [] = (False, [])"
| "sign_of (c # cs) =
     (if c = CHR ''-'' then (True, cs) else if c = CHR ''+'' then (False, cs) else (False, c # cs))"

definition atol :: "string \<Rightarrow> int" where
  "atol s =
     (case sign_of (dropWhile isspace s) of (neg, r) \<Rightarrow>
        if neg then - int (digits_val 0 r) else int (digits_val 0 r))"

text \<open>The exponent part of a decimal number: \<open>e\<close> or \<open>E\<close>, an optional sign, at least one digit.\<close>

definition exponent :: "string \<Rightarrow> int" where
  "exponent s =
     (case s of
        [] \<Rightarrow> 0
      | c # cs \<Rightarrow>
          if c = CHR ''e'' \<or> c = CHR ''E'' then
            (case sign_of cs of (neg, r) \<Rightarrow>
               if neg then - int (digits_val 0 r) else int (digits_val 0 r))
          else 0)"

definition strtod :: "string \<Rightarrow> real" where
  "strtod s =
     (case sign_of (dropWhile isspace s) of (neg, r) \<Rightarrow>
        let ip = takeWhile isdigit r;
            r1 = dropWhile isdigit r;
            fp = (case r1 of [] \<Rightarrow> [] | c # cs \<Rightarrow> if c = CHR ''.'' then takeWhile isdigit cs else []);
            r2 = (case r1 of [] \<Rightarrow> [] | c # cs \<Rightarrow> if c = CHR ''.'' then dropWhile isdigit cs else r1)
        in if ip = [] \<and> fp = [] then 0
           else
             let mant = real (digits_val 0 (ip @ fp)) / 10 ^ length fp;
                 ex = exponent r2;
                 v = (if 0 \<le> ex then mant * 10 ^ nat ex else mant / 10 ^ nat (- ex))
             in if neg then - v else v)"

text \<open>
  \<open>getdouble\<close> and \<open>getlong\<close> copy the characters \<open>c[i0] .. c[i1 - 1]\<close> into a buffer and
  convert it.  A read past the end of the line is undefined in C, as \<open>c ! i\<close> is
  unspecified in HOL: the theorems are about lines of 69 characters.
\<close>

definition field :: "string \<Rightarrow> nat \<Rightarrow> nat \<Rightarrow> string" where
  "field c i0 i1 = map (\<lambda>i. c ! (i0 + i)) [0..<i1 - i0]"

definition getdouble :: "string \<Rightarrow> nat \<Rightarrow> nat \<Rightarrow> real" where
  "getdouble c i0 i1 = strtod (field c i0 i1)"

definition getlong :: "string \<Rightarrow> nat \<Rightarrow> nat \<Rightarrow> int" where
  "getlong c i0 i1 = atol (field c i0 i1)"

text \<open>
  The members \<open>name\<close>, \<open>N\<close>, \<open>S\<close>, \<open>V\<close> carry the prefix \<open>sat_\<close>.  \<open>tle\<close> and \<open>predict\<close>
  assign to members of the object: the model takes the object and returns it updated.
\<close>

record Satellite =
  sat_name :: string
  sat_N :: int
  YE :: int
  DE :: int
  TE :: real
  IN :: real
  RA :: real
  EC :: real
  WP :: real
  MA :: real
  MM :: real
  M2 :: real
  RV :: int
  N0 :: real
  A_0 :: real
  B_0 :: real
  PC :: real
  QD :: real
  WD :: real
  DC :: real
  RS :: real
  SAT :: Vec3
  VEL :: Vec3
  sat_S :: Vec3
  sat_V :: Vec3

text \<open>
  \<open>Satellite::tle\<close>.  The derived quantities divide by \<open>N0\<close>, \<open>B_0\<close> and \<open>MM\<close>; where one
  of them is zero the C code stores an infinity or NaN without any signal, and HOL's
  division gives 0: no statement below is about a derived quantity in that case.
\<close>

definition tle :: "Plan13_h \<Rightarrow> string \<Rightarrow> string \<Rightarrow> string \<Rightarrow> Satellite \<Rightarrow> Satellite" where
  "tle c nm l1 l2 sat =
     (let n = getlong l2 2 7;
          ye0 = getlong l1 18 20;
          ye = (if ye0 < 58 then ye0 + 2000 else ye0 + 1900);
          te0 = getdouble l1 20 32;
          m2 = 2 * pi * getdouble l1 33 43;
          inc = RADIANS (getdouble l2 8 16);
          ra = RADIANS (getdouble l2 17 25);
          ec = getdouble l2 26 33 / 10000000;
          wp = RADIANS (getdouble l2 34 42);
          ma = RADIANS (getdouble l2 43 51);
          mm = 2 * pi * getdouble l2 52 63;
          rv = getlong l2 63 68;
          de = fnday ye 1 0 + trunc te0;
          te = te0 - of_int (trunc te0);
          n0 = mm / 86400;
          a0 = (GM c / (n0 * n0)) powr (1 / 3);
          b0 = a0 * sqrt (1 - ec * ec);
          pc0 = RE c * a0 / (b0 * b0);
          pc = 1.5 * J2 c * pc0 * pc0 * mm;
          ci = cos inc
      in sat\<lparr>sat_name := nm, sat_N := n, YE := ye, DE := de, TE := te, IN := inc, RA := ra,
             EC := ec, WP := wp, MA := ma, MM := mm, M2 := m2, RV := rv, N0 := n0,
             A_0 := a0, B_0 := b0, PC := pc, QD := - pc * ci,
             WD := pc * (5 * ci * ci - 1) / 2, DC := - 2 * m2 / (3 * mm)\<rparr>)"

subsection \<open>class Satellite: propagation\<close>

text \<open>
  The first part of \<open>Satellite::predict\<close>: the elapsed time \<open>T\<close>, the drag term \<open>DT\<close>,
  the mean anomaly \<open>M\<close> after the whole revolutions \<open>DR\<close> are taken out, and \<open>DR\<close>.
\<close>

definition predict_M :: "Satellite \<Rightarrow> DateTime \<Rightarrow> real \<times> real \<times> real \<times> real" where
  "predict_M sat dt =
     (let t = of_int (DN dt - DE sat) + (TN dt - TE sat);
          dtt = DC sat * t / 2;
          m = MA sat + MM sat * t * (1 - 3 * dtt);
          dr = of_int (trunc (m / (2 * pi)))
      in (t, dtt, m - dr * 2 * pi, dr))"

text \<open>
  The loop \<open>for (;;)\<close> of \<open>Satellite::predict\<close>, which has no bound on its iterations:
  the result is \<open>None\<close> when it never leaves.  On leaving, \<open>EA\<close> is the corrected value,
  while \<open>C_EA\<close>, \<open>S_EA\<close> and \<open>DNOM\<close> are those of the last pass.
\<close>

partial_function (option) kepler_loop ::
  "real \<Rightarrow> real \<Rightarrow> real \<Rightarrow> (real \<times> real \<times> real \<times> real) option" where
  "kepler_loop ec m ea =
     (let c_ea = cos ea;
          s_ea = sin ea;
          dnom = 1 - ec * c_ea;
          d = (ea - ec * s_ea - m) / dnom;
          ea' = ea - d
      in if \<bar>d\<bar> < 1 / 100000 then Some (ea', c_ea, s_ea, dnom)
         else kepler_loop ec m ea')"

text \<open>The same loop with a bound on the number of passes, for the proofs.\<close>

fun kepler_iter :: "nat \<Rightarrow> real \<Rightarrow> real \<Rightarrow> real \<Rightarrow> (real \<times> real \<times> real \<times> real) option" where
  "kepler_iter 0 ec m ea = None"
| "kepler_iter (Suc k) ec m ea =
     (let c_ea = cos ea;
          s_ea = sin ea;
          dnom = 1 - ec * c_ea;
          d = (ea - ec * s_ea - m) / dnom;
          ea' = ea - d
      in if \<bar>d\<bar> < 1 / 100000 then Some (ea', c_ea, s_ea, dnom)
         else kepler_iter k ec m ea')"

text \<open>
  \<open>Satellite::predict\<close>.  The locals \<open>MRSE\<close>, \<open>MASE\<close> and \<open>RN\<close> and the third components
  of \<open>CX\<close>, \<open>CY\<close> and \<open>CZ\<close> are computed and never read; the model leaves them out.
\<close>

definition predict :: "Plan13_h \<Rightarrow> DateTime \<Rightarrow> Satellite \<Rightarrow> Satellite option" where
  "predict c dt sat =
     (let teg = of_int (DE sat - fnday (trunc YG) 1 0) + TE sat;
          ghae = RADIANS G0 + teg * WE c
      in case predict_M sat dt of (t, dtt, m, dr) \<Rightarrow>
        let kd = 1 + 4 * dtt;
            kdp = 1 - 7 * dtt
        in (case kepler_loop (EC sat) m m of
             None \<Rightarrow> None
           | Some (ea, c_ea, s_ea, dnom) \<Rightarrow>
               let a = A_0 sat * kd;
                   b = B_0 sat * kd;
                   rs = a * dnom;
                   sx = a * (c_ea - EC sat);
                   sy = b * s_ea;
                   vx = - a * s_ea / dnom * N0 sat;
                   vy = b * c_ea / dnom * N0 sat;
                   ap = WP sat + WD sat * t * kdp;
                   cw = cos ap;
                   sw = sin ap;
                   raan = RA sat + QD sat * t * kdp;
                   cq = cos raan;
                   sq = sin raan;
                   ci = cos (IN sat);
                   si = sin (IN sat);
                   cx0 = cw * cq - sw * ci * sq;
                   cx1 = - sw * cq - cw * ci * sq;
                   cy0 = cw * sq + sw * ci * cq;
                   cy1 = - sw * sq + cw * ci * cq;
                   cz0 = sw * si;
                   cz1 = cw * si;
                   sat0 = sx * cx0 + sy * cx1;
                   sat1 = sx * cy0 + sy * cy1;
                   sat2 = sx * cz0 + sy * cz1;
                   vel0 = vx * cx0 + vy * cx1;
                   vel1 = vx * cy0 + vy * cy1;
                   vel2 = vx * cz0 + vy * cz1;
                   ghaa = ghae + WE c * t;
                   cg = cos (- ghaa);
                   sg = sin (- ghaa)
               in Some (sat\<lparr>RS := rs, SAT := (sat0, sat1, sat2), VEL := (vel0, vel1, vel2),
                             sat_S := (sat0 * cg - sat1 * sg, sat0 * sg + sat1 * cg, sat2),
                             sat_V := (vel0 * cg - vel1 * sg, vel0 * sg + vel1 * cg, vel2)\<rparr>)))"

definition Satellite_altaz :: "Satellite \<Rightarrow> Observer \<Rightarrow> (fault + real) \<times> (fault + real)" where
  "Satellite_altaz sat obs = altaz obs (sat_S sat)"

subsection \<open>class Sun\<close>

record Sun =
  SUN :: Vec3
  H :: Vec3

definition Sun_predict :: "Plan13_h \<Rightarrow> DateTime \<Rightarrow> Sun" where
  "Sun_predict c dt =
     (let t = of_int (DN dt - fnday (trunc YG) 1 0) + TN dt;
          ghae = RADIANS G0 + t * WE c;
          mrse = RADIANS G0 + t * WW c + pi;
          mase = RADIANS (MAS0 + t * MASD);
          tas = mrse + EQC1 * sin mase + EQC2 * sin (2 * mase);
          sun0 = cos tas;
          sun1 = sin tas * CNS;
          sun2 = sin tas * SNS;
          cg = cos (- ghae);
          sg = sin (- ghae)
      in \<lparr>SUN = (sun0, sun1, sun2),
          H = (sun0 * cg - sun1 * sg, sun0 * sg + sun1 * cg, sun2)\<rparr>)"

definition Sun_altaz :: "Sun \<Rightarrow> Observer \<Rightarrow> (fault + real) \<times> (fault + real)" where
  "Sun_altaz sun obs = altaz obs (H sun)"

subsection \<open>Rounded arithmetic\<close>

text \<open>
  Two claims are about the last bit of a result: the round trip of the time of day
  through \<open>settime\<close> and \<open>gettime\<close>, and the upper end of the azimuth range.  For them the
  functions concerned are modelled a second time, with every floating-point operation
  followed by a rounding \<open>rnd\<close>, a parameter.  With \<open>rnd\<close> the identity they are the
  functions above.  Integer operands are converted exactly, and the casts \<open>(int) t\<close> are
  exact.

  \<open>to_double\<close> is IEEE 754 binary64 rounding to nearest, ties to even, of a real number:
  a multiple of \<open>2 ^ (e - 52)\<close> where \<open>2 ^ e \<le> \<bar>x\<bar> < 2 ^ (e + 1)\<close>.  The exponent is not
  bounded: overflow and subnormal numbers are not modelled, and no value below comes
  near either.  The library functions \<open>sqrt\<close>, \<open>atan2\<close> and \<open>asin\<close> are taken to return
  the rounding of the exact value.
\<close>

definition rne :: "real \<Rightarrow> int" where
  "rne y =
     (let f = \<lfloor>y\<rfloor>
      in if y - of_int f < 1 / 2 then f
         else if 1 / 2 < y - of_int f then f + 1
         else if even f then f else f + 1)"

definition to_double :: "real \<Rightarrow> real" where
  "to_double x =
     (if x = 0 then 0
      else let q = 2 powr (of_int \<lfloor>log 2 \<bar>x\<bar>\<rfloor> - 52)
           in q * of_int (rne (x / q)))"

text \<open>
  \<open>DateTime::settime\<close>: \<open>TN = ((double) h + m / 60. + s / 3600.) / 24.\<close>, two quotients,
  two sums from left to right, and a quotient.
\<close>

definition settime_fl :: "(real \<Rightarrow> real) \<Rightarrow> int \<Rightarrow> int \<Rightarrow> int \<Rightarrow> int \<Rightarrow> int \<Rightarrow> int \<Rightarrow> DateTime" where
  "settime_fl rnd year month day h m s =
     (let a = rnd (of_int m / 60);
          b = rnd (of_int s / 3600);
          c = rnd (of_int h + a);
          d = rnd (c + b)
      in \<lparr>DN = fnday year month day, TN = rnd (d / 24)\<rparr>)"

text \<open>
  \<open>DateTime::gettime\<close>: the statements \<open>t *= 24.\<close>, \<open>t -= h\<close>, \<open>t *= 60\<close>, \<open>t -= m\<close>,
  \<open>t *= 60\<close> each round their result.
\<close>

definition gettime_fl :: "(real \<Rightarrow> real) \<Rightarrow> DateTime \<Rightarrow> int \<times> int \<times> int \<times> int \<times> int \<times> int" where
  "gettime_fl rnd dt =
     (let (year, month, day) = fndate (DN dt);
          t0 = rnd (TN dt * 24);
          h = trunc t0;
          ta = rnd (t0 - of_int h);
          t1 = rnd (ta * 60);
          m = trunc t1;
          tb = rnd (t1 - of_int m);
          t2 = rnd (tb * 60);
          s = trunc t2
      in (year, month, day, h, m, s))"

text \<open>
  The look angles.  \<open>DEGREES\<close> is \<open>rad * 180. / M_PI\<close>, where \<open>M_PI\<close> is the rounding of
  \<open>\<pi>\<close>; the sums of three products are evaluated from left to right.
\<close>

definition dot_fl :: "(real \<Rightarrow> real) \<Rightarrow> Vec3 \<Rightarrow> Vec3 \<Rightarrow> real" where
  "dot_fl rnd a b = (case a of (a0, a1, a2) \<Rightarrow> case b of (b0, b1, b2) \<Rightarrow>
                       rnd (rnd (rnd (a0 * b0) + rnd (a1 * b1)) + rnd (a2 * b2)))"

definition DEGREES_fl :: "(real \<Rightarrow> real) \<Rightarrow> real \<Rightarrow> real" where
  "DEGREES_fl rnd rad = rnd (rnd (rad * 180) / rnd pi)"

definition altaz_fl :: "(real \<Rightarrow> real) \<Rightarrow> Observer \<Rightarrow> Vec3 \<Rightarrow> (fault + real) \<times> (fault + real)" where
  "altaz_fl rnd obs P =
     (case P of (P0, P1, P2) \<Rightarrow> case obs_O obs of (O0, O1, O2) \<Rightarrow>
        let R0 = rnd (P0 - O0);
            R1 = rnd (P1 - O1);
            R2 = rnd (P2 - O2);
            r = rnd (sqrt (rnd (rnd (rnd (R0 * R0) + rnd (R1 * R1)) + rnd (R2 * R2))))
        in if r = 0 then (Inl NaN, Inl NaN)
           else
             let R = (rnd (R0 / r), rnd (R1 / r), rnd (R2 / r));
                 u = dot_fl rnd R (obs_U obs);
                 e = dot_fl rnd R (obs_E obs);
                 n = dot_fl rnd R (obs_N obs);
                 az = DEGREES_fl rnd (rnd (atan2 e n));
                 az' = (if az < 0 then rnd (az + 360) else az)
             in (if \<bar>u\<bar> \<le> 1 then Inr (DEGREES_fl rnd (rnd (arcsin u))) else Inl NaN, Inr az'))"

definition Satellite_altaz_fl ::
  "(real \<Rightarrow> real) \<Rightarrow> Satellite \<Rightarrow> Observer \<Rightarrow> (fault + real) \<times> (fault + real)" where
  "Satellite_altaz_fl rnd sat obs = altaz_fl rnd obs (sat_S sat)"

subsection \<open>Valid inputs and sample objects\<close>

text \<open>
  The calendar dates a caller may pass to \<open>settime\<close>: the Gregorian leap-year rule and
  the lengths of the months.  These are not part of the code; the round-trip claim
  quantifies over them.
\<close>

definition leap :: "int \<Rightarrow> bool" where
  "leap y = (y mod 4 = 0 \<and> (y mod 100 \<noteq> 0 \<or> y mod 400 = 0))"

definition days_in_month :: "int \<Rightarrow> int \<Rightarrow> int" where
  "days_in_month y m =
     (if m = 2 then (if leap y then 29 else 28)
      else if m = 4 \<or> m = 6 \<or> m = 9 \<or> m = 11 then 30 else 31)"

text \<open>
  Sample objects for the concrete instances below: a satellite whose Earth-fixed
  position is \<open>p\<close>, and an observer at \<open>q\<close> whose triad is the coordinate axes.
\<close>

abbreviation sat_at :: "Vec3 \<Rightarrow> Satellite" where
  "sat_at p \<equiv>
     \<lparr>sat_name = [], sat_N = 0, YE = 2014, DE = 735300, TE = 0, IN = 0, RA = 0, EC = 0,
      WP = 0, MA = 0, MM = 0, M2 = 0, RV = 0, N0 = 0, A_0 = 0, B_0 = 0, PC = 0, QD = 0,
      WD = 0, DC = 0, RS = 0, SAT = (0, 0, 0), VEL = (0, 0, 0), sat_S = p,
      sat_V = (0, 0, 0)\<rparr>"

abbreviation obs_at :: "Vec3 \<Rightarrow> Observer" where
  "obs_at q \<equiv>
     \<lparr>obs_name = [], LA = 0, LO = 0, HT = 0, obs_U = (1, 0, 0), obs_E = (0, 1, 0),
      obs_N = (0, 0, 1), obs_O = q, obs_V = (0, 0, 0)\<rparr>"

text \<open>
  A field with no parsable number in it, for each of the two conversions.  \<open>atol\<close>
  converts nothing exactly when, after the leading white space and an optional sign,
  the text ends or goes on with a character that is not a digit.  \<open>strtod\<close> converts
  nothing exactly when, after the leading white space and an optional sign, the text
  starts neither a decimal or hexadecimal number (a digit, or a point followed by a
  digit) nor, in either case of the letters, \<open>INF\<close> or \<open>NAN\<close>.
\<close>

definition no_long :: "string \<Rightarrow> bool" where
  "no_long s =
     (case snd (sign_of (dropWhile isspace s)) of
        [] \<Rightarrow> True
      | c # cs \<Rightarrow> \<not> isdigit c)"

definition starts_decimal :: "string \<Rightarrow> bool" where
  "starts_decimal r =
     (case r of
        [] \<Rightarrow> False
      | c # cs \<Rightarrow>
          isdigit c \<or> (c = CHR ''.'' \<and> (case cs of [] \<Rightarrow> False | d # ds \<Rightarrow> isdigit d)))"

definition starts_inf_nan :: "string \<Rightarrow> bool" where
  "starts_inf_nan r =
     (case r of
        a # b # c # cs \<Rightarrow>
          ((a = CHR ''i'' \<or> a = CHR ''I'') \<and> (b = CHR ''n'' \<or> b = CHR ''N'')
             \<and> (c = CHR ''f'' \<or> c = CHR ''F'')) \<or>
          ((a = CHR ''n'' \<or> a = CHR ''N'') \<and> (b = CHR ''a'' \<or> b = CHR ''A'')
             \<and> (c = CHR ''n'' \<or> c = CHR ''N''))
      | _ \<Rightarrow> False)"

definition no_double :: "string \<Rightarrow> bool" where
  "no_double s =
     (\<not> starts_decimal (snd (sign_of (dropWhile isspace s))) \<and>
      \<not> starts_inf_nan (snd (sign_of (dropWhile isspace s))))"

text \<open>
  Two lines of 69 characters whose eleven fields hold no number: blanks, signs alone,
  question marks, a point with no digit, the words \<open>none\<close> and \<open>N/A\<close>, and \<open>inf\<close> and
  \<open>x1234\<close> where \<open>atol\<close> reads.
\<close>

abbreviation junk_line1 :: string where
  "junk_line1 \<equiv> ''1 25544U 98067A   ??none         N/A         00000-0  29482-4 0  9993''"

abbreviation junk_line2 :: string where
  "junk_line2 \<equiv> ''2 inf   .x       --------         +.e5     N/A      none       x12340''"

text \<open>Sample values for the constants of the header, for the concrete instances.\<close>

abbreviation sample_h :: Plan13_h where
  "sample_h \<equiv>
     \<lparr>RE = 6378, FL = 1 / 298, GM = 398600, J2 = 1 / 1000, WW = 1 / 58, WE = 63 / 10,
      W0 = 7 / 100000\<rparr>"

section \<open>Facts about the casts\<close>

lemma trunc_of_nonneg: "0 \<le> x \<Longrightarrow> trunc x = \<lfloor>x\<rfloor>"
  by (simp add: trunc_def)

lemma trunc_zero_iff: "trunc x = 0 \<longleftrightarrow> - 1 < x \<and> x < 1"
  unfolding trunc_def by (auto simp: floor_eq_iff ceiling_eq_iff)

lemma trunc_of_int: "trunc (of_int k) = k"
  by (simp add: trunc_def)

lemma trunc_frac: "0 \<le> a \<Longrightarrow> 0 < b \<Longrightarrow> trunc (of_int a / of_int b) = a div b"
  by (simp add: trunc_def floor_divide_of_int_eq zero_le_divide_iff)

lemma int_div_eqI: "b * q \<le> a \<Longrightarrow> a < b * q + b \<Longrightarrow> a div b = (q::int)"
  using int_div_pos_eq[of a b q "a - b * q"] by simp

section \<open>Facts about rounding\<close>

text \<open>With the identity for \<open>rnd\<close> the rounded functions are the exact ones.\<close>

lemma settime_fl_exact: "settime_fl (\<lambda>x. x) = settime"
  by (intro ext) (simp add: settime_fl_def settime_def Let_def)

lemma gettime_fl_exact: "gettime_fl (\<lambda>x. x) = gettime"
  by (intro ext) (simp add: gettime_fl_def gettime_def Let_def)

lemma altaz_fl_exact: "altaz_fl (\<lambda>x. x) obs P = altaz obs P"
  by (cases P, cases "obs_O obs")
     (simp add: altaz_fl_def altaz_def Let_def vsub_def dot_fl_def dot_def DEGREES_fl_def
        DEGREES_def split: prod.splits)

text \<open>Rounding to nearest moves a number by at most half a unit in the last place.\<close>

lemma rne_error: "\<bar>of_int (rne y) - y\<bar> \<le> 1 / 2"
proof -
  have "of_int \<lfloor>y\<rfloor> \<le> y" "y < of_int \<lfloor>y\<rfloor> + 1" by linarith+
  then show ?thesis unfolding rne_def Let_def by (auto simp: abs_le_iff)
qed

lemma to_double_error: "\<bar>to_double x - x\<bar> \<le> \<bar>x\<bar> / 2 ^ 53"
proof (cases "x = 0")
  case True
  then show ?thesis by (simp add: to_double_def)
next
  case False
  define e where "e = \<lfloor>log 2 \<bar>x\<bar>\<rfloor>"
  define q :: real where "q = 2 powr (of_int e - 52)"
  have q0: "0 < q" by (simp add: q_def)
  have "of_int e \<le> log 2 \<bar>x\<bar>" unfolding e_def by linarith
  then have lo: "2 powr of_int e \<le> \<bar>x\<bar>"
    using False by (simp add: powr_le_iff)
  have qe: "q = 2 powr of_int e / 2 ^ 52"
    unfolding q_def by (simp add: powr_diff powr_realpow[symmetric] del: powr_numeral)
  have "to_double x - x = q * (of_int (rne (x / q)) - x / q)"
    using False q0 by (simp add: to_double_def Let_def q_def e_def algebra_simps)
  then have "\<bar>to_double x - x\<bar> = q * \<bar>of_int (rne (x / q)) - x / q\<bar>"
    using q0 by (simp add: abs_mult)
  also have "\<dots> \<le> q * (1 / 2)"
    using q0 rne_error[of "x / q"] by (intro mult_left_mono) simp_all
  also have "\<dots> = 2 powr of_int e / 2 ^ 53" by (simp add: qe)
  also have "\<dots> \<le> \<bar>x\<bar> / 2 ^ 53" using lo by (simp add: divide_right_mono)
  finally show ?thesis .
qed

lemma rne_near:
  assumes "\<bar>y - of_int k\<bar> < 1 / 2"
  shows "rne y = k"
proof -
  have "\<lfloor>y\<rfloor> = k \<or> \<lfloor>y\<rfloor> = k - 1" using assms by linarith
  then show ?thesis
  proof
    assume f: "\<lfloor>y\<rfloor> = k"
    then have "y - of_int k < 1 / 2" using assms by linarith
    with f show ?thesis by (simp add: rne_def Let_def)
  next
    assume f: "\<lfloor>y\<rfloor> = k - 1"
    have "(of_int (k - 1) :: real) = of_int k - 1" by simp
    then have "1 / 2 < y - of_int (k - 1)" using assms by linarith
    moreover have "\<not> y - of_int (k - 1) < 1 / 2" using calculation by linarith
    ultimately show ?thesis using f by (simp add: rne_def Let_def)
  qed
qed

lemma to_double_eval:
  assumes "x \<noteq> 0" "\<lfloor>log 2 \<bar>x\<bar>\<rfloor> = e" "\<bar>x / 2 powr (of_int e - 52) - of_int k\<bar> < 1 / 2"
  shows "to_double x = 2 powr (of_int e - 52) * of_int k"
  using assms by (simp add: to_double_def Let_def rne_near)

lemma to_double_zero: "to_double 0 = 0"
  by (simp add: to_double_def)

lemma to_double_360:
  assumes "360 - 1 / 2 ^ 46 < y" "y \<le> 360"
  shows "to_double y = 360"
proof -
  have y0: "0 < y" using assms by simp
  have "\<lfloor>log 2 y\<rfloor> = 8"
    using y0 assms by (subst floor_log_eq_powr_iff) simp_all
  then have e: "\<lfloor>log 2 \<bar>y\<bar>\<rfloor> = 8" using y0 by simp
  have q: "(2::real) powr (of_int 8 - 52) = 1 / 2 ^ 44"
    by (simp add: powr_neg_numeral)
  have "\<bar>y / (1 / 2 ^ 44) - of_int 6333186975989760\<bar> < 1 / 2"
    using assms by (simp add: abs_less_iff field_simps)
  then have "to_double y = 2 powr (of_int 8 - 52) * of_int 6333186975989760"
    unfolding q[symmetric] using y0 e by (intro to_double_eval) simp_all
  then show ?thesis unfolding q by simp
qed

lemma rne_tie_even:
  assumes "y = of_int k + 1 / 2" "even k"
  shows "rne y = k"
proof -
  have "\<lfloor>y\<rfloor> = k" using assms(1) by linarith
  then show ?thesis using assms by (simp add: rne_def Let_def)
qed

lemma to_double_value:
  assumes "0 < x" "2 powr of_int e \<le> x" "x < 2 powr (of_int e + 1)"
    and "\<bar>x / 2 powr (of_int e - 52) - of_int k\<bar> < 1 / 2 \<or>
         (x / 2 powr (of_int e - 52) = of_int k + 1 / 2 \<and> even k)"
  shows "to_double x = 2 powr (of_int e - 52) * of_int k"
proof -
  have e: "\<lfloor>log 2 \<bar>x\<bar>\<rfloor> = e"
    using assms(1,2,3) by (simp add: floor_log_eq_powr_iff)
  have "rne (x / 2 powr (of_int e - 52)) = k"
    using assms(4) rne_near rne_tie_even by blast
  then show ?thesis using assms(1) e by (simp add: to_double_def Let_def)
qed

lemma to_double_pos:
  assumes "0 < x"
  shows "0 < to_double x \<and> (999 / 1000) * x \<le> to_double x \<and> to_double x \<le> (1001 / 1000) * x"
proof -
  have "\<bar>to_double x - x\<bar> \<le> \<bar>x\<bar> / 2 ^ 53" by (rule to_double_error)
  moreover have "\<bar>x\<bar> / 2 ^ 53 \<le> x / 1000" using assms by simp
  ultimately have "\<bar>to_double x - x\<bar> \<le> x / 1000" by linarith
  then show ?thesis using assms by linarith
qed

lemma to_double_neg:
  assumes "x < 0"
  shows "to_double x < 0 \<and> (1001 / 1000) * x \<le> to_double x \<and> to_double x \<le> (999 / 1000) * x"
proof -
  have "\<bar>to_double x - x\<bar> \<le> \<bar>x\<bar> / 2 ^ 53" by (rule to_double_error)
  moreover have "\<bar>x\<bar> / 2 ^ 53 \<le> - x / 1000" using assms by simp
  ultimately have "\<bar>to_double x - x\<bar> \<le> - x / 1000" by linarith
  then show ?thesis using assms by linarith
qed

section \<open>Claim C2: settime followed by gettime\<close>

subsection \<open>The casts of fnday and fndate as integer divisions\<close>

lemma trunc_year: "0 \<le> y \<Longrightarrow> trunc (of_int y * 365.25) = (1461 * y) div 4"
proof -
  assume y: "0 \<le> y"
  have e: "(of_int y * 365.25 :: real) = of_int (1461 * y) / of_int 4" by simp
  show ?thesis unfolding e by (rule trunc_frac) (use y in simp_all)
qed

lemma trunc_month: "0 \<le> n \<Longrightarrow> trunc (of_int n * 30.6) = (306 * n) div 10"
proof -
  assume n: "0 \<le> n"
  have e: "(of_int n * 30.6 :: real) = of_int (306 * n) / of_int 10" by simp
  show ?thesis unfolding e by (rule trunc_frac) (use n in simp_all)
qed

lemma trunc_year_inv:
  "123 \<le> k \<Longrightarrow> trunc ((of_int k - 122.1) / 365.25) = (20 * k - 2442) div 7305"
proof -
  assume k: "123 \<le> k"
  have e: "((of_int k - 122.1) / 365.25 :: real) = of_int (20 * k - 2442) / of_int 7305"
    by (simp add: field_simps)
  show ?thesis unfolding e by (rule trunc_frac) (use k in simp_all)
qed

lemma trunc_month_inv: "0 \<le> k \<Longrightarrow> trunc (of_int k / 30.61) = (100 * k) div 3061"
proof -
  assume k: "0 \<le> k"
  have e: "(of_int k / 30.61 :: real) = of_int (100 * k) / of_int 3061" by simp
  show ?thesis unfolding e by (rule trunc_frac) (use k in simp_all)
qed

text \<open>
  The year that \<open>fndate\<close> recovers.  \<open>k\<close> is the day counted from the start of the
  March-based year \<open>y'\<close>, offset by 122; day 488 is the 29th of February and exists
  only when the next calendar year is divisible by 4.
\<close>

lemma year_div:
  fixes y' k :: int
  assumes y: "0 \<le> y'" and k: "123 \<le> k"
    and B: "k \<le> 487 \<or> (k = 488 \<and> y' mod 4 = 3)"
  shows "(20 * ((1461 * y') div 4 + k) - 2442) div 7305 = y'"
proof -
  define F where "F = (1461 * y') div 4"
  define r where "r = (1461 * y') mod 4"
  have e: "1461 * y' = 4 * F + r" unfolding F_def r_def by simp
  have r: "0 \<le> r" "r \<le> 3" unfolding r_def by simp_all
  have r3: "y' mod 4 = 3 \<Longrightarrow> r = 3"
  proof -
    assume "y' mod 4 = 3"
    then have "(1461 * y') mod 4 = ((1461 mod 4) * 3) mod 4"
      by (metis mod_mult_eq)
    then show "r = 3" by (simp add: r_def)
  qed
  have "7305 * y' \<le> 20 * F + 20 * k - 2442" using e r k by linarith
  moreover have "20 * F + 20 * k - 2442 < 7305 * y' + 7305"
    using B
  proof
    assume "k \<le> 487" then show ?thesis using e r by linarith
  next
    assume "k = 488 \<and> y' mod 4 = 3"
    then show ?thesis using e r3 by linarith
  qed
  ultimately have "(20 * F + 20 * k - 2442) div 7305 = y'" by (rule int_div_eqI)
  then show ?thesis unfolding F_def[symmetric] by (simp add: algebra_simps)
qed

text \<open>
  \<open>fndate\<close> on a day number built from a March-based year \<open>y'\<close>, a month index
  \<open>n = month + 1\<close> (4 to 15), its offset \<open>f\<close> and a day \<open>d\<close>.
\<close>

lemma fndate_core:
  fixes y' n d f :: int
  assumes y: "0 \<le> y'" and n: "4 \<le> n" and f: "(306 * n) div 10 = f" "122 \<le> f" and d: "1 \<le> d"
    and A1: "3061 * n \<le> 100 * (f + d)" and A2: "100 * (f + d) < 3061 * n + 3061"
    and B: "f + d \<le> 487 \<or> (f + d = 488 \<and> y' mod 4 = 3)"
  shows "fndate ((1461 * y') div 4 + f + d - 428) =
           (if 12 < n - 1 then (y' + 1, n - 13, d) else (y', n - 1, d))"
proof -
  define k where "k = f + d"
  define dt1 where "dt1 = (1461 * y') div 4 + k"
  have k: "123 \<le> k" using f d unfolding k_def by linarith
  have dt1: "123 \<le> dt1" using k y unfolding dt1_def by linarith
  have B': "k \<le> 487 \<or> (k = 488 \<and> y' mod 4 = 3)" using B by (simp add: k_def)
  have Y: "(20 * dt1 - 2442) div 7305 = y'"
    unfolding dt1_def using y k B' by (rule year_div)
  have st1: "trunc ((of_int dt1 - 122.1) / 365.25) = y'"
    using trunc_year_inv[OF dt1] Y by simp
  have st2: "dt1 - trunc (of_int y' * 365.25) = k"
    using trunc_year[OF y] by (simp add: dt1_def)
  have "(100 * k) div 3061 = n"
    using A1 A2 unfolding k_def by (rule int_div_eqI)
  then have st3: "trunc (of_int k / 30.61) = n"
    using trunc_month_inv[of k] k by simp
  have st4: "k - trunc (of_int n * 30.6) = d"
    using trunc_month[of n] n f by (simp add: k_def)
  have e: "(1461 * y') div 4 + f + d - 428 + 428 = dt1"
    by (simp add: dt1_def k_def)
  show ?thesis
    unfolding fndate_def Let_def e st1 st2 st3 st4 by simp
qed

lemma fnday_int:
  assumes "1 \<le> y" "1 \<le> m"
  shows "fnday y m d =
    (if m < 3 then (1461 * (y - 1)) div 4 + (306 * (m + 13)) div 10 + d - 428
     else (1461 * y) div 4 + (306 * (m + 1)) div 10 + d - 428)"
proof (cases "m < 3")
  case True
  have "fnday y m d = trunc (of_int (y - 1) * 365.25) + trunc (of_int (m + 12 + 1) * 30.6) + d - 428"
    using True unfolding fnday_def YM_def Let_def by simp
  also have "\<dots> = (1461 * (y - 1)) div 4 + (306 * (m + 12 + 1)) div 10 + d - 428"
    using assms by (simp only: trunc_year trunc_month)
  finally show ?thesis using True by simp
next
  case False
  have "fnday y m d = trunc (of_int y * 365.25) + trunc (of_int (m + 1) * 30.6) + d - 428"
    using False unfolding fnday_def YM_def Let_def by simp
  also have "\<dots> = (1461 * y) div 4 + (306 * (m + 1)) div 10 + d - 428"
    using assms by (simp only: trunc_year trunc_month)
  finally show ?thesis using False by simp
qed

subsection \<open>The date\<close>

lemma fndate_fnday_late:
  assumes y: "1 \<le> y" and m: "3 \<le> m" "m \<le> 12"
    and d: "1 \<le> d" "d \<le> days_in_month y m"
  shows "fndate (fnday y m d) = (y, m, d)"
proof -
  have F: "fnday y m d = (1461 * y) div 4 + (306 * (m + 1)) div 10 + d - 428"
    using fnday_int[of y m d] y m by simp
  have y': "0 \<le> y" using y by simp
  have n: "4 \<le> m + 1" using m by simp
  have "m = 3 \<or> m = 4 \<or> m = 5 \<or> m = 6 \<or> m = 7 \<or> m = 8
    \<or> m = 9 \<or> m = 10 \<or> m = 11 \<or> m = 12"
    using m by presburger
  then consider "m = 3" | "m = 4" | "m = 5" | "m = 6" | "m = 7" | "m = 8"
    | "m = 9" | "m = 10" | "m = 11" | "m = 12"
    by blast
  then have "fndate ((1461 * y) div 4 + (306 * (m + 1)) div 10 + d - 428) =
           (if 12 < (m + 1) - 1 then (y + 1, (m + 1) - 13, d) else (y, (m + 1) - 1, d))"
  proof cases
    case 1
    show ?thesis
      by (rule fndate_core[OF y' n _ _ d(1)]) (use 1 d in \<open>simp_all add: days_in_month_def\<close>)
  next
    case 2
    show ?thesis
      by (rule fndate_core[OF y' n _ _ d(1)]) (use 2 d in \<open>simp_all add: days_in_month_def\<close>)
  next
    case 3
    show ?thesis
      by (rule fndate_core[OF y' n _ _ d(1)]) (use 3 d in \<open>simp_all add: days_in_month_def\<close>)
  next
    case 4
    show ?thesis
      by (rule fndate_core[OF y' n _ _ d(1)]) (use 4 d in \<open>simp_all add: days_in_month_def\<close>)
  next
    case 5
    show ?thesis
      by (rule fndate_core[OF y' n _ _ d(1)]) (use 5 d in \<open>simp_all add: days_in_month_def\<close>)
  next
    case 6
    show ?thesis
      by (rule fndate_core[OF y' n _ _ d(1)]) (use 6 d in \<open>simp_all add: days_in_month_def\<close>)
  next
    case 7
    show ?thesis
      by (rule fndate_core[OF y' n _ _ d(1)]) (use 7 d in \<open>simp_all add: days_in_month_def\<close>)
  next
    case 8
    show ?thesis
      by (rule fndate_core[OF y' n _ _ d(1)]) (use 8 d in \<open>simp_all add: days_in_month_def\<close>)
  next
    case 9
    show ?thesis
      by (rule fndate_core[OF y' n _ _ d(1)]) (use 9 d in \<open>simp_all add: days_in_month_def\<close>)
  next
    case 10
    show ?thesis
      by (rule fndate_core[OF y' n _ _ d(1)]) (use 10 d in \<open>simp_all add: days_in_month_def\<close>)
  qed
  then show ?thesis unfolding F using m by simp
qed

lemma leap_mod4: "leap y \<Longrightarrow> (y - 1) mod 4 = 3"
proof -
  assume "leap y"
  then have "y mod 4 = 0" by (simp add: leap_def)
  then show ?thesis by presburger
qed

lemma fndate_fnday_early:
  assumes y: "1 \<le> y" and m: "1 \<le> m" "m < 3"
    and d: "1 \<le> d" "d \<le> days_in_month y m"
  shows "fndate (fnday y m d) = (y, m, d)"
proof -
  have F: "fnday y m d = (1461 * (y - 1)) div 4 + (306 * (m + 13)) div 10 + d - 428"
    using fnday_int[of y m d] y m by simp
  have y': "0 \<le> y - 1" using y by simp
  have n: "4 \<le> m + 13" using m by simp
  consider "m = 1" | "m = 2" "leap y" | "m = 2" "\<not> leap y"
    using m by arith
  then have "fndate ((1461 * (y - 1)) div 4 + (306 * (m + 13)) div 10 + d - 428) =
           (if 12 < (m + 13) - 1 then (y - 1 + 1, (m + 13) - 13, d) else (y - 1, (m + 13) - 1, d))"
  proof cases
    case 1
    show ?thesis
      by (rule fndate_core[OF y' n _ _ d(1)]) (use 1 d in \<open>simp_all add: days_in_month_def\<close>)
  next
    case 2
    show ?thesis
      by (rule fndate_core[OF y' n _ _ d(1)])
        (use 2 d leap_mod4[of y] in \<open>simp_all add: days_in_month_def, linarith\<close>)
  next
    case 3
    show ?thesis
      by (rule fndate_core[OF y' n _ _ d(1)]) (use 3 d in \<open>simp_all add: days_in_month_def\<close>)
  qed
  then show ?thesis unfolding F using m by simp
qed

subsection \<open>The time of day\<close>

text \<open>
  The time of day goes through five rounded operations in \<open>settime\<close> and five in
  \<open>gettime\<close>.  For a rounding of relative error at most \<open>u\<close>, the hours that \<open>gettime\<close>
  starts from are within \<open>174 * u\<close> of the exact \<open>h + m / 60 + s / 3600\<close>, and the seconds
  that it ends with are within \<open>3600\<close> times that, plus the error of its own steps, of
  a whole number: the cast then gives that number or the one below.
\<close>

text \<open>A rounding with relative error at most u.\<close>

lemma rnd_nonneg:
  fixes rnd :: "real \<Rightarrow> real" and u x :: real
  assumes R: "\<And>x. \<bar>rnd x - x\<bar> \<le> u * \<bar>x\<bar>" and u: "0 \<le> u" "u \<le> 1" and x: "0 \<le> x"
  shows "0 \<le> rnd x"
proof -
  have "\<bar>x\<bar> = x" using x by simp
  with R[of x] have "\<bar>rnd x - x\<bar> \<le> u * x" by simp
  moreover have "u * x \<le> 1 * x" using u x by (intro mult_right_mono) simp_all
  ultimately show ?thesis by linarith
qed

lemma rnd_abs_err:
  fixes rnd :: "real \<Rightarrow> real" and u x B :: real
  assumes R: "\<And>x. \<bar>rnd x - x\<bar> \<le> u * \<bar>x\<bar>" and u: "0 \<le> u" and x: "0 \<le> x" "x \<le> B"
  shows "\<bar>rnd x - x\<bar> \<le> B * u"
proof -
  have "\<bar>x\<bar> = x" using x by simp
  with R[of x] have "\<bar>rnd x - x\<bar> \<le> u * x" by simp
  moreover have "u * x \<le> u * B" using u x by (intro mult_left_mono) simp_all
  ultimately show ?thesis by (simp add: mult.commute)
qed

lemma trunc_floor_frac:
  fixes t :: real
  assumes "0 \<le> t"
  shows "0 \<le> trunc t \<and> 0 \<le> t - of_int (trunc t) \<and> t - of_int (trunc t) < 1"
proof -
  have "trunc t = \<lfloor>t\<rfloor>" using assms by (simp add: trunc_def)
  moreover have "0 \<le> \<lfloor>t\<rfloor>" using assms by simp
  moreover have "of_int \<lfloor>t\<rfloor> \<le> t" "t < of_int \<lfloor>t\<rfloor> + 1" by linarith+
  ultimately show ?thesis by linarith
qed

text \<open>Multiplying a fraction of a unit by 60, both operations rounded.\<close>

lemma times60_err:
  fixes rnd :: "real \<Rightarrow> real" and u x :: real
  assumes R: "\<And>x. \<bar>rnd x - x\<bar> \<le> u * \<bar>x\<bar>" and u: "0 \<le> u" "u \<le> 1"
    and x: "0 \<le> x" "x < 1"
  shows "0 \<le> rnd (rnd x * 60) \<and> \<bar>rnd (rnd x * 60) - 60 * x\<bar> \<le> 180 * u"
proof -
  define a where "a = rnd x"
  have a0: "0 \<le> a" unfolding a_def using R u x(1) by (rule rnd_nonneg)
  have xle: "x \<le> 1" using x by simp
  have ae: "\<bar>a - x\<bar> \<le> 1 * u" unfolding a_def using R u(1) x(1) xle by (rule rnd_abs_err)
  have a2: "a \<le> 2" using ae x u by linarith
  have b0: "0 \<le> a * 60" "a * 60 \<le> 120" using a0 a2 by simp_all
  have be: "\<bar>rnd (a * 60) - a * 60\<bar> \<le> 120 * u" using R u(1) b0 by (rule rnd_abs_err)
  have "0 \<le> rnd (a * 60)" using R u b0(1) by (rule rnd_nonneg)
  moreover have "\<bar>rnd (a * 60) - 60 * x\<bar> \<le> 180 * u" using ae be by linarith
  ultimately show ?thesis unfolding a_def by simp
qed

lemma settime_fl_TN:
  assumes R: "\<And>x. \<bar>rnd x - x\<bar> \<le> u * \<bar>x\<bar>" and u: "0 \<le> u" "u \<le> 1 / 10000000"
    and h: "0 \<le> h" "h \<le> 23" and m: "0 \<le> m" "m \<le> 59" and s: "0 \<le> s" "s \<le> 59"
  shows "0 \<le> rnd (TN (settime_fl rnd year month day h m s) * 24) \<and>
         \<bar>rnd (TN (settime_fl rnd year month day h m s) * 24)
            - (of_int h + of_int m / 60 + of_int s / 3600)\<bar> \<le> 174 * u"
proof -
  have u1: "u \<le> 1" using u by simp
  define a where "a = rnd (of_int m / 60)"
  define b where "b = rnd (of_int s / 3600)"
  define c where "c = rnd (of_int h + a)"
  define d where "d = rnd (c + b)"
  define tn where "tn = rnd (d / 24)"
  define t0 where "t0 = rnd (tn * 24)"
  have hr: "0 \<le> (of_int h :: real)" "(of_int h :: real) \<le> 23" using h by simp_all
  have mr: "0 \<le> (of_int m / 60 :: real)" "(of_int m / 60 :: real) \<le> 1" using m by simp_all
  have sr: "0 \<le> (of_int s / 3600 :: real)" "(of_int s / 3600 :: real) \<le> 1" using s by simp_all
  have a0: "0 \<le> a" unfolding a_def using R u(1) u1 mr(1) by (rule rnd_nonneg)
  have ae: "\<bar>a - of_int m / 60\<bar> \<le> 1 * u" unfolding a_def using R u(1) mr by (rule rnd_abs_err)
  have b0: "0 \<le> b" unfolding b_def using R u(1) u1 sr(1) by (rule rnd_nonneg)
  have be: "\<bar>b - of_int s / 3600\<bar> \<le> 1 * u" unfolding b_def using R u(1) sr by (rule rnd_abs_err)
  have ha: "0 \<le> of_int h + a" "of_int h + a \<le> 25" using hr a0 ae mr u by linarith+
  have c0: "0 \<le> c" unfolding c_def using R u(1) u1 ha(1) by (rule rnd_nonneg)
  have ce: "\<bar>c - (of_int h + a)\<bar> \<le> 25 * u" unfolding c_def using R u(1) ha by (rule rnd_abs_err)
  have cb: "0 \<le> c + b" "c + b \<le> 27" using c0 b0 ce ha be sr u by linarith+
  have d0: "0 \<le> d" unfolding d_def using R u(1) u1 cb(1) by (rule rnd_nonneg)
  have de: "\<bar>d - (c + b)\<bar> \<le> 27 * u" unfolding d_def using R u(1) cb by (rule rnd_abs_err)
  have dT: "\<bar>d - (of_int h + of_int m / 60 + of_int s / 3600)\<bar> \<le> 54 * u"
    using ae be ce de by linarith
  have d24: "0 \<le> d / 24" "d / 24 \<le> 2" using d0 dT hr mr sr u by linarith+
  have tn0: "0 \<le> tn" unfolding tn_def using R u(1) u1 d24(1) by (rule rnd_nonneg)
  have tne: "\<bar>tn - d / 24\<bar> \<le> 2 * u" unfolding tn_def using R u(1) d24 by (rule rnd_abs_err)
  have t24: "0 \<le> tn * 24" "tn * 24 \<le> 72" using tn0 tne d24 u by linarith+
  have t00: "0 \<le> t0" unfolding t0_def using R u(1) u1 t24(1) by (rule rnd_nonneg)
  have t0e: "\<bar>t0 - tn * 24\<bar> \<le> 72 * u" unfolding t0_def using R u(1) t24 by (rule rnd_abs_err)
  have "\<bar>t0 - (of_int h + of_int m / 60 + of_int s / 3600)\<bar> \<le> 174 * u"
    using t0e tne dT by linarith
  moreover have "TN (settime_fl rnd year month day h m s) = tn"
    by (simp add: settime_fl_def Let_def tn_def d_def c_def b_def a_def)
  ultimately show ?thesis using t00 by (simp add: t0_def)
qed

lemma gettime_fl_seconds:
  assumes R: "\<And>x. \<bar>rnd x - x\<bar> \<le> u * \<bar>x\<bar>" and u: "0 \<le> u" "u \<le> 1 / 10000000"
    and t0: "0 \<le> rnd (TN dt * 24)" "\<bar>rnd (TN dt * 24) - of_int n / 3600\<bar> \<le> 174 * u"
    and g: "gettime_fl rnd dt = (y', mo', d', h', m', s')"
  shows "(y', mo', d') = fndate (DN dt) \<and> 0 \<le> h' \<and> 0 \<le> m' \<and> 0 \<le> s' \<and>
         (3600 * h' + 60 * m' + s' = n \<or> 3600 * h' + 60 * m' + s' = n - 1)"
proof -
  have u1: "u \<le> 1" using u by simp
  define t0 :: real where "t0 = rnd (TN dt * 24)"
  define x0 where "x0 = t0 - of_int (trunc t0)"
  define t1 where "t1 = rnd (rnd x0 * 60)"
  define x1 where "x1 = t1 - of_int (trunc t1)"
  define t2 where "t2 = rnd (rnd x1 * 60)"
  define x2 where "x2 = t2 - of_int (trunc t2)"
  have G: "gettime_fl rnd dt = (fst (fndate (DN dt)), fst (snd (fndate (DN dt))), snd (snd (fndate (DN dt))),
             trunc t0, trunc t1, trunc t2)"
    by (simp add: gettime_fl_def Let_def split_beta t0_def x0_def t1_def x1_def t2_def)
  have hms: "h' = trunc t0" "m' = trunc t1" "s' = trunc t2" and dte: "(y', mo', d') = fndate (DN dt)"
    using g unfolding G by (cases "fndate (DN dt)"; auto)+
  have t00: "0 \<le> t0" using t0(1) by (simp add: t0_def)
  have e0: "\<bar>t0 - of_int n / 3600\<bar> \<le> 174 * u" using t0(2) by (simp add: t0_def)
  have f0: "0 \<le> trunc t0 \<and> 0 \<le> x0 \<and> x0 < 1" unfolding x0_def using t00 by (rule trunc_floor_frac)
  have s1: "0 \<le> t1 \<and> \<bar>t1 - 60 * x0\<bar> \<le> 180 * u"
    unfolding t1_def using R u(1) u1 f0 by (intro times60_err) simp_all
  have f1: "0 \<le> trunc t1 \<and> 0 \<le> x1 \<and> x1 < 1" unfolding x1_def using s1 by (intro trunc_floor_frac) simp
  have s2: "0 \<le> t2 \<and> \<bar>t2 - 60 * x1\<bar> \<le> 180 * u"
    unfolding t2_def using R u(1) u1 f1 by (intro times60_err) simp_all
  have f2: "0 \<le> trunc t2 \<and> 0 \<le> x2 \<and> x2 < 1" unfolding x2_def using s2 by (intro trunc_floor_frac) simp
  define N' where "N' = 3600 * trunc t0 + 60 * trunc t1 + trunc t2"
  define E0 where "E0 = t0 - of_int n / 3600"
  define E1 where "E1 = t1 - 60 * x0"
  define E2 where "E2 = t2 - 60 * x1"
  have b0: "\<bar>E0\<bar> \<le> 174 * u" using e0 by (simp add: E0_def)
  have b1: "\<bar>E1\<bar> \<le> 180 * u" using s1 by (simp add: E1_def)
  have b2: "\<bar>E2\<bar> \<le> 180 * u" using s2 by (simp add: E2_def)
  have "(of_int N' :: real) = 3600 * (t0 - x0) + 60 * (t1 - x1) + (t2 - x2)"
    by (simp add: N'_def x0_def x1_def x2_def)
  then have "(of_int N' :: real) - of_int n = 3600 * E0 + 60 * E1 + E2 - x2"
    by (simp add: E0_def E1_def E2_def algebra_simps)
  then have "(of_int N' :: real) - of_int n < 1" "- 2 < (of_int N' :: real) - of_int n"
    using b0 b1 b2 f2 u by linarith+
  then have "N' - n < 1" "- 2 < N' - n" by linarith+
  then have "N' = n \<or> N' = n - 1" by linarith
  then show ?thesis using f0 f1 f2 dte by (simp add: hms N'_def)
qed

text \<open>
  C2: for every calendar date of the years 1900 to 2100 and every time of day, and for
  every rounding of relative error at most \<open>1 / 10 ^ 7\<close> (binary64 has \<open>1 / 2 ^ 53\<close>,
  binary32 has \<open>1 / 2 ^ 24\<close>), \<open>gettime\<close> after \<open>settime\<close> gives back the year, the
  month and the day, and a time of day that, counted in seconds, is the one given or
  one second less.
\<close>

theorem settime_gettime_within_one_second:
  assumes "\<forall>x. \<bar>rnd x - x\<bar> \<le> u * \<bar>x\<bar>" "0 \<le> u" "u \<le> 1 / 10000000"
    and "1900 \<le> year" "year \<le> 2100" "1 \<le> month" "month \<le> 12"
    and "1 \<le> day" "day \<le> days_in_month year month"
    and "0 \<le> h" "h \<le> 23" "0 \<le> m" "m \<le> 59" "0 \<le> s" "s \<le> 59"
  shows "case gettime_fl rnd (settime_fl rnd year month day h m s) of
           (year', month', day', h', m', s') \<Rightarrow>
             year' = year \<and> month' = month \<and> day' = day \<and> 0 \<le> h' \<and> 0 \<le> m' \<and> 0 \<le> s' \<and>
             (3600 * h' + 60 * m' + s' = 3600 * h + 60 * m + s \<or>
              3600 * h' + 60 * m' + s' = 3600 * h + 60 * m + s - 1)"
proof -
  have R: "\<And>x. \<bar>rnd x - x\<bar> \<le> u * \<bar>x\<bar>" using assms(1) by blast
  define dt where "dt = settime_fl rnd year month day h m s"
  have date: "fndate (DN dt) = (year, month, day)"
  proof (cases "month < 3")
    case True
    then have "fndate (fnday year month day) = (year, month, day)"
      using assms by (intro fndate_fnday_early) simp_all
    then show ?thesis by (simp add: dt_def settime_fl_def Let_def)
  next
    case False
    then have "fndate (fnday year month day) = (year, month, day)"
      using assms by (intro fndate_fnday_late) simp_all
    then show ?thesis by (simp add: dt_def settime_fl_def Let_def)
  qed
  have e: "(of_int h + of_int m / 60 + of_int s / 3600 :: real) = of_int (3600 * h + 60 * m + s) / 3600"
    by simp
  have t: "0 \<le> rnd (TN dt * 24) \<and>
           \<bar>rnd (TN dt * 24) - of_int (3600 * h + 60 * m + s) / 3600\<bar> \<le> 174 * u"
    unfolding dt_def e[symmetric] using R assms(2,3,10-15) by (rule settime_fl_TN)
  obtain y' mo' d' h' m' s' where g: "gettime_fl rnd dt = (y', mo', d', h', m', s')"
    by (cases "gettime_fl rnd dt") auto
  have "(y', mo', d') = fndate (DN dt) \<and> 0 \<le> h' \<and> 0 \<le> m' \<and> 0 \<le> s' \<and>
         (3600 * h' + 60 * m' + s' = 3600 * h + 60 * m + s \<or>
          3600 * h' + 60 * m' + s' = 3600 * h + 60 * m + s - 1)"
    using R assms(2,3) conjunct1[OF t] conjunct2[OF t] g by (rule gettime_fl_seconds)
  then show ?thesis
    unfolding dt_def[symmetric] g using date by simp
qed

theorem settime_gettime_within_one_second_witness:
  "case gettime_fl to_double (settime_fl to_double 2020 2 29 0 0 3) of
     (year', month', day', h', m', s') \<Rightarrow>
       year' = 2020 \<and> month' = 2 \<and> day' = 29 \<and> 0 \<le> h' \<and> 0 \<le> m' \<and> 0 \<le> s' \<and>
       (3600 * h' + 60 * m' + s' = 3 \<or> 3600 * h' + 60 * m' + s' = 2)"
proof -
  have "\<forall>x. \<bar>to_double x - x\<bar> \<le> (1 / 2 ^ 53) * \<bar>x\<bar>"
    using to_double_error by simp
  then show ?thesis
    using settime_gettime_within_one_second[of to_double "1 / 2 ^ 53" 2020 2 29 0 0 3]
    by (simp add: days_in_month_def leap_def)
qed

text \<open>
  The second is lost in binary64 at 0:00:03: \<open>3 / 3600 / 24\<close> and its product with 24
  round down, and the cast of \<open>2.9999999999999\<close> is 2.
\<close>

lemma one_second_early:
  "gettime_fl to_double (settime_fl to_double 2020 2 29 0 0 3) = (2020, 2, 29, 0, 0, 2)"
proof -
  define b :: real where "b = 7686143364045647 / 2 ^ 63"
  define tn :: real where "tn = 5124095576030431 / 2 ^ 67"
  define t0 :: real where "t0 = 7686143364045646 / 2 ^ 63"
  define t1 :: real where "t1 = 7205759403792793 / 2 ^ 57"
  define t2 :: real where "t2 = 6755399441055743 / 2 ^ 51"
  have b: "to_double (3 / 3600) = b"
    using to_double_value[of "3 / 3600" "- 11" 7686143364045647]
    by (simp add: b_def powr_neg_numeral abs_less_iff)
  have bb: "to_double b = b"
    using to_double_value[of b "- 11" 7686143364045647]
    by (simp add: b_def powr_neg_numeral)
  have tn: "to_double (b / 24) = tn"
    using to_double_value[of "b / 24" "- 15" 5124095576030431]
    by (simp add: b_def tn_def powr_neg_numeral abs_less_iff)
  have t0: "to_double (tn * 24) = t0"
    using to_double_value[of "tn * 24" "- 11" 7686143364045646]
    by (simp add: tn_def t0_def powr_neg_numeral)
  have t00: "to_double t0 = t0"
    using to_double_value[of t0 "- 11" 7686143364045646]
    by (simp add: t0_def powr_neg_numeral)
  have t1: "to_double (t0 * 60) = t1"
    using to_double_value[of "t0 * 60" "- 5" 7205759403792793]
    by (simp add: t0_def t1_def powr_neg_numeral abs_less_iff)
  have t11: "to_double t1 = t1"
    using to_double_value[of t1 "- 5" 7205759403792793]
    by (simp add: t1_def powr_neg_numeral)
  have t2: "to_double (t1 * 60) = t2"
    using to_double_value[of "t1 * 60" 1 6755399441055743]
    by (simp add: t1_def t2_def powr_neg_numeral abs_less_iff)
  have b': "to_double (1 / 1200) = b" using b by simp
  have S: "settime_fl to_double 2020 2 29 0 0 3 = \<lparr>DN = fnday 2020 2 29, TN = tn\<rparr>"
    by (simp add: settime_fl_def Let_def to_double_zero b' bb tn)
  have D: "fndate (fnday 2020 2 29) = (2020, 2, 29)"
    by (rule fndate_fnday_early) (simp_all add: days_in_month_def leap_def)
  have z0: "trunc t0 = 0" by (simp add: trunc_zero_iff t0_def)
  have z1: "trunc t1 = 0" by (simp add: trunc_zero_iff t1_def)
  have "\<lfloor>t2\<rfloor> = 2" by (simp add: t2_def floor_eq_iff)
  then have z2: "trunc t2 = 2" by (simp add: trunc_def t2_def)
  show ?thesis
    unfolding S by (simp add: gettime_fl_def Let_def D t0 z0 t00 t1 z1 t11 t2 z2)
qed

section \<open>Claim C5: DateTime::add and the fraction of the day\<close>

text \<open>
  C5 says that after \<open>add\<close> the field \<open>TN\<close> lies in \<open>[0, 1)\<close> for any real number of days,
  negative ones included.  The cast \<open>(long) TN\<close> truncates toward zero, so a negative sum
  keeps its negative fraction: adding \<open>-1/2\<close> day to 8 November 2019, 06:00:00 (day
  number 737386, fraction \<open>1/4\<close>) leaves \<open>DN\<close> unchanged and \<open>TN = -1/4\<close>, and \<open>gettime\<close>
  then returns the hour \<open>-6\<close>, outside the range its documentation gives.
\<close>

theorem add_negative_days_leaves_negative_TN:
  "add \<lparr>DN = 737386, TN = 1/4\<rparr> (- 1/2) = \<lparr>DN = 737386, TN = - 1/4\<rparr> \<and>
   gettime (add \<lparr>DN = 737386, TN = 1/4\<rparr> (- 1/2)) = (2019, 11, 8, - 6, 0, 0)"
proof -
  have t: "trunc (- (1/4) :: real) = 0"
    by (simp add: trunc_zero_iff)
  then have a: "add \<lparr>DN = 737386, TN = 1/4\<rparr> (- 1/2) = \<lparr>DN = 737386, TN = - 1/4\<rparr>"
    by (simp add: add_def Let_def)
  have "fnday 2019 11 8 = 737386"
    by (simp add: fnday_int)
  moreover have "fndate (fnday 2019 11 8) = (2019, 11, 8)"
    by (rule fndate_fnday_late) (simp_all add: days_in_month_def)
  ultimately have d: "fndate 737386 = (2019, 11, 8)" by simp
  have h: "trunc (- 6) = - 6"
    using trunc_of_int[of "- 6"] by simp
  have z: "trunc 0 = 0"
    by (simp add: trunc_def)
  have "gettime \<lparr>DN = 737386, TN = - 1/4\<rparr> = (2019, 11, 8, - 6, 0, 0)"
    by (simp add: gettime_def Let_def d h z)
  with a show ?thesis by simp
qed

section \<open>Claim C4: the mean anomaly after the whole revolutions are removed\<close>

text \<open>
  C4 says that the mean anomaly \<open>M\<close> of \<open>Satellite::predict\<close> lies in \<open>[0, 2\<pi>)\<close> also
  for times before the epoch.  \<open>DR = (long) (M / (2\<pi>))\<close> truncates toward zero, so a
  negative \<open>M\<close> stays negative.  For a satellite with mean anomaly 0 at the epoch, 15
  revolutions a day and no drag, 0.01 day before the epoch: \<open>T = -1/100\<close>,
  \<open>DR = 0\<close> and \<open>M = -3\<pi>/10\<close>.
\<close>

theorem predict_M_before_epoch:
  "predict_M (sat\<lparr>DE := 735300, TE := 1/2, MA := 0, MM := 2 * pi * 15, DC := 0\<rparr>)
             \<lparr>DN = 735300, TN = 49/100\<rparr>
   = (- 1/100, 0, - 3 * pi / 10, 0)"
proof -
  have "trunc (- (3 / 20)) = 0"
    by (simp add: trunc_zero_iff)
  then show ?thesis
    by (simp add: predict_M_def Let_def)
qed

section \<open>Claim C6: the observer's triad\<close>

lemma sq_sum1: "cos x * cos x + sin x * sin x = (1::real)"
  using sin_cos_squared_add3[of x] by simp

lemma vlen_one_iff: "vlen a = 1 \<longleftrightarrow> dot a a = 1"
  by (simp add: vlen_def)

lemma up_dot_north:
  "cos a * cos b * (- sin a * cos b) + cos a * sin b * (- sin a * sin b) + sin a * cos a = (0::real)"
proof -
  have "cos a * cos b * (- sin a * cos b) + cos a * sin b * (- sin a * sin b) + sin a * cos a
     = sin a * cos a * (1 - (cos b * cos b + sin b * sin b))"
    by algebra
  then show ?thesis by (simp only: sq_sum1) simp
qed

lemma up_dot_up:
  "cos a * cos b * (cos a * cos b) + cos a * sin b * (cos a * sin b) + sin a * sin a = (1::real)"
proof -
  have "cos a * cos b * (cos a * cos b) + cos a * sin b * (cos a * sin b) + sin a * sin a
     = (cos a * cos a) * (cos b * cos b + sin b * sin b) + sin a * sin a"
    by algebra
  then show ?thesis by (simp only: sq_sum1 mult_1_right)
qed

lemma north_dot_north:
  "- sin a * cos b * (- sin a * cos b) + - sin a * sin b * (- sin a * sin b) + cos a * cos a = (1::real)"
proof -
  have "- sin a * cos b * (- sin a * cos b) + - sin a * sin b * (- sin a * sin b) + cos a * cos a
     = cos a * cos a + (sin a * sin a) * (cos b * cos b + sin b * sin b)"
    by algebra
  then show ?thesis by (simp only: sq_sum1 mult_1_right)
qed

text \<open>
  C6: for every latitude, longitude and height, the vectors \<open>U\<close>, \<open>E\<close>, \<open>N\<close> that the
  constructor of \<open>Observer\<close> computes are pairwise orthogonal and of length 1.  In exact
  arithmetic the dot products are exactly 0 and the lengths exactly 1, which is within
  the tolerance \<open>1e-9\<close>.
\<close>

theorem observer_triad_orthonormal:
  "dot (obs_U (Observer_new c nm lat lng hgt)) (obs_E (Observer_new c nm lat lng hgt)) = 0 \<and>
   dot (obs_U (Observer_new c nm lat lng hgt)) (obs_N (Observer_new c nm lat lng hgt)) = 0 \<and>
   dot (obs_E (Observer_new c nm lat lng hgt)) (obs_N (Observer_new c nm lat lng hgt)) = 0 \<and>
   vlen (obs_U (Observer_new c nm lat lng hgt)) = 1 \<and>
   vlen (obs_E (Observer_new c nm lat lng hgt)) = 1 \<and>
   vlen (obs_N (Observer_new c nm lat lng hgt)) = 1"
proof -
  define a where "a = RADIANS lat"
  define b where "b = RADIANS lng"
  define u where "u = (cos a * cos b, cos a * sin b, sin a)"
  define e where "e = (- sin b, cos b, 0::real)"
  define n where "n = (- sin a * cos b, - sin a * sin b, cos a)"
  have U: "obs_U (Observer_new c nm lat lng hgt) = u"
    and E: "obs_E (Observer_new c nm lat lng hgt) = e"
    and N: "obs_N (Observer_new c nm lat lng hgt) = n"
    by (simp_all add: Observer_new_def Let_def a_def b_def u_def e_def n_def)
  have ue: "dot u e = 0"
    by (simp add: dot_def u_def e_def)
  have un: "dot u n = 0"
    using up_dot_north[of a b] by (simp add: dot_def u_def n_def)
  have en: "dot e n = 0"
    by (simp add: dot_def e_def n_def)
  have uu: "dot u u = 1"
    using up_dot_up[of a b] by (simp add: dot_def u_def)
  have ee: "dot e e = 1"
    using sq_sum1[of b] by (simp add: dot_def e_def add.commute)
  have nn: "dot n n = 1"
    using north_dot_north[of a b] by (simp add: dot_def n_def)
  show ?thesis
    unfolding U E N vlen_one_iff using ue un en uu ee nn by simp
qed

section \<open>Claims C7 and C9: the look angles\<close>

lemma atan2_bounds: "- pi < atan2 y x \<and> atan2 y x \<le> pi"
proof -
  have lo: "- (pi / 2) < arctan (y / x)" and hi: "arctan (y / x) < pi / 2"
    by (rule arctan_lbound, rule arctan_ubound)
  consider "0 < x" | "x < 0" "0 \<le> y" | "x < 0" "y < 0" | "x = 0"
    by linarith
  then show ?thesis
  proof cases
    case 1
    then have "atan2 y x = arctan (y / x)" by (simp add: atan2_def)
    then show ?thesis using lo hi pi_gt_zero by linarith
  next
    case 2
    then have "y / x \<le> 0" by (simp add: divide_nonneg_neg)
    then have "arctan (y / x) \<le> 0" using arctan_monotone'[of "y / x" 0] by simp
    moreover from 2 have "atan2 y x = arctan (y / x) + pi" by (simp add: atan2_def)
    ultimately show ?thesis using lo pi_gt_zero by linarith
  next
    case 3
    then have "0 < y / x" by (simp add: divide_neg_neg)
    then have "0 < arctan (y / x)" using arctan_monotone[of 0 "y / x"] by simp
    moreover from 3 have "atan2 y x = arctan (y / x) - pi" by (simp add: atan2_def)
    ultimately show ?thesis using hi pi_gt_zero by linarith
  next
    case 4
    then have "atan2 y x = pi / 2 \<or> atan2 y x = - pi / 2 \<or> atan2 y x = 0"
      by (simp add: atan2_def)
    then show ?thesis using pi_gt_zero by linarith
  qed
qed

lemma altaz_az_range:
  assumes "P \<noteq> obs_O obs"
  shows "\<exists>az. snd (altaz obs P) = Inr az \<and> 0 \<le> az \<and> az < 360"
proof -
  obtain R0 R1 R2 where R: "vsub P (obs_O obs) = (R0, R1, R2)"
    by (cases "vsub P (obs_O obs)") auto
  have "vsub P (obs_O obs) \<noteq> (0, 0, 0)"
    using assms by (cases P, cases "obs_O obs") (auto simp: vsub_def)
  with R have "R0 \<noteq> 0 \<or> R1 \<noteq> 0 \<or> R2 \<noteq> 0" by simp
  then have "R0 * R0 + R1 * R1 + R2 * R2 \<noteq> 0"
    by (metis add_nonneg_eq_0_iff mult_eq_0_iff zero_le_square add_nonneg_nonneg)
  then have r: "sqrt (R0 * R0 + R1 * R1 + R2 * R2) \<noteq> 0" by simp
  define l where "l = sqrt (R0 * R0 + R1 * R1 + R2 * R2)"
  define a where "a = atan2 (dot (R0 / l, R1 / l, R2 / l) (obs_E obs))
                            (dot (R0 / l, R1 / l, R2 / l) (obs_N obs))"
  have b: "- pi < a" "a \<le> pi" using atan2_bounds[of _ _] by (simp_all add: a_def)
  have d1: "- 180 < DEGREES a" using b(1) pi_gt_zero by (simp add: DEGREES_def field_simps)
  have d2: "DEGREES a \<le> 180" using b(2) pi_gt_zero by (simp add: DEGREES_def field_simps)
  have "snd (altaz obs P) = Inr (if DEGREES a < 0 then DEGREES a + 360 else DEGREES a)"
    using r by (simp add: altaz_def R Let_def a_def l_def)
  then show ?thesis using d1 d2 by auto
qed

text \<open>
  In exact arithmetic the azimuth lies in \<open>[0, 360)\<close> (lemma \<open>altaz_az_range\<close>).  In
  binary64 it does not: a negative azimuth smaller than half a unit in the last place
  of 360 passes the test \<open>az < 0.\<close>, and the sum \<open>az + 360.\<close> rounds to 360.
\<close>

lemma arctan_le_self:
  fixes x :: real
  assumes "0 \<le> x"
  shows "arctan x \<le> x"
proof -
  have "0 - arctan 0 \<le> x - arctan x"
  proof (rule DERIV_nonneg_imp_nondecreasing[OF assms])
    fix t :: real
    assume "0 \<le> t"
    have "((\<lambda>t. t - arctan t) has_real_derivative (1 - inverse (1 + t\<^sup>2))) (at t)"
      by (auto intro!: derivative_eq_intros)
    moreover have "0 \<le> 1 - inverse (1 + t\<^sup>2)"
      by (simp add: inverse_le_1_iff)
    ultimately show "\<exists>y. ((\<lambda>t. t - arctan t) has_real_derivative y) (at t) \<and> 0 \<le> y"
      by blast
  qed
  then show ?thesis by simp
qed

lemma arctan_neg_bounds:
  fixes x :: real
  assumes "x < 0"
  shows "x \<le> arctan x \<and> arctan x < 0"
  using arctan_le_self[of "- x"] assms by (simp add: arctan_minus)

lemma pi_ge_3: "3 \<le> pi"
proof -
  have "sin (pi / 6) \<le> pi / 6" by (intro sin_x_le_x) simp
  then show ?thesis by (simp add: sin_30)
qed

lemma dot_fl_east: "dot_fl to_double (q0, q1, q2) (0, 1, 0) = to_double (to_double (to_double q1))"
  by (simp add: dot_fl_def to_double_zero)

lemma dot_fl_north: "dot_fl to_double (q0, q1, q2) (0, 0, 1) = to_double (to_double q2)"
  by (simp add: dot_fl_def to_double_zero)

text \<open>Three roundings of a negative number, two of a positive one.\<close>

lemma to_double_neg3:
  assumes "x < 0"
  shows "to_double (to_double (to_double x)) < 0 \<and>
         (1004 / 1000) * x \<le> to_double (to_double (to_double x))"
proof -
  have 1: "to_double x < 0 \<and> (1001 / 1000) * x \<le> to_double x"
    using to_double_neg[OF assms] by simp
  then have 2: "to_double (to_double x) < 0 \<and> (1001 / 1000) * to_double x \<le> to_double (to_double x)"
    using to_double_neg[of "to_double x"] by simp
  then have 3: "to_double (to_double (to_double x)) < 0 \<and>
      (1001 / 1000) * to_double (to_double x) \<le> to_double (to_double (to_double x))"
    using to_double_neg[of "to_double (to_double x)"] by simp
  show ?thesis using 1 2 3 assms by linarith
qed

lemma to_double_pos2:
  assumes "0 < x"
  shows "(998 / 1000) * x \<le> to_double (to_double x)"
proof -
  have 1: "0 < to_double x \<and> (999 / 1000) * x \<le> to_double x"
    using to_double_pos[OF assms] by simp
  then have "(999 / 1000) * to_double x \<le> to_double (to_double x)"
    using to_double_pos[of "to_double x"] by simp
  with 1 assms show ?thesis by linarith
qed

lemma tiny_azimuth:
  fixes e n :: real
  assumes n: "0 < n" and e: "e < 0" and ratio: "- e / n \<le> 203 / 10 ^ 18"
  shows "DEGREES_fl to_double (to_double (atan2 e n)) < 0 \<and>
         - (1 / 2 ^ 46) < DEGREES_fl to_double (to_double (atan2 e n))"
proof -
  define \<rho> where "\<rho> = e / n"
  have \<rho>: "\<rho> < 0" "- (203 / 10 ^ 18) \<le> \<rho>"
    using n e ratio by (simp_all add: \<rho>_def divide_neg_pos)
  have at: "atan2 e n = arctan \<rho>" using n by (simp add: atan2_def \<rho>_def)
  define a where "a = to_double (arctan \<rho>)"
  have ar: "\<rho> \<le> arctan \<rho>" "arctan \<rho> < 0" using arctan_neg_bounds[OF \<rho>(1)] by simp_all
  have a: "a < 0" "(1001 / 1000) * arctan \<rho> \<le> a"
    unfolding a_def using to_double_neg[OF ar(2)] by simp_all
  define g1 where "g1 = to_double (a * 180)"
  have "a * 180 < 0" using a(1) by simp
  then have g1: "g1 < 0" "(1001 / 1000) * (a * 180) \<le> g1"
    unfolding g1_def using to_double_neg[of "a * 180"] by simp_all
  define p where "p = to_double pi"
  have p: "2997 / 1000 \<le> p"
    unfolding p_def using to_double_pos[OF pi_gt_zero] pi_ge_3 by linarith
  define g2 where "g2 = g1 / p"
  have p0: "0 < p" using p by linarith
  have g2n: "g2 < 0" unfolding g2_def using g1(1) p0 by (simp add: divide_neg_pos)
  have "- g1 / p \<le> - g1 / (2997 / 1000)"
    using g1(1) p by (intro divide_left_mono) simp_all
  then have g2: "g1 / (2997 / 1000) \<le> g2" by (simp add: g2_def)
  define az where "az = to_double g2"
  have az: "az < 0" "(1001 / 1000) * g2 \<le> az"
    unfolding az_def using to_double_neg[OF g2n] by simp_all
  have "- (1 / 2 ^ 46) < az"
    using az(2) g2 g1(2) a(2) ar(1) \<rho>(2) by (simp add: field_simps)
  moreover have "DEGREES_fl to_double (to_double (atan2 e n)) = az"
    by (simp add: DEGREES_fl_def at az_def g2_def g1_def p_def a_def)
  ultimately show ?thesis using az(1) by simp
qed

lemma altaz_fl_azimuth:
  assumes "obs_O obs = (O0, O1, O2)"
    and "R0 = rnd (P0 - O0)" "R1 = rnd (P1 - O1)" "R2 = rnd (P2 - O2)"
    and "r = rnd (sqrt (rnd (rnd (rnd (R0 * R0) + rnd (R1 * R1)) + rnd (R2 * R2))))"
    and "r \<noteq> 0"
    and "Q = (rnd (R0 / r), rnd (R1 / r), rnd (R2 / r))"
    and "az = DEGREES_fl rnd (rnd (atan2 (dot_fl rnd Q (obs_E obs)) (dot_fl rnd Q (obs_N obs))))"
  shows "snd (altaz_fl rnd obs (P0, P1, P2)) = Inr (if az < 0 then rnd (az + 360) else az)"
  using assms(6) unfolding altaz_fl_def assms(1) prod.case Let_def
    assms(2,3,4)[symmetric] assms(5)[symmetric] assms(7)[symmetric] assms(8)[symmetric]
  by simp

text \<open>
  C7 fails in binary64: for the satellite at \<open>(7000, - 1 / 10 ^ 13, 500)\<close> and the
  observer at \<open>(6378, 0, 0)\<close> with the coordinate axes as its triad, the line of sight
  is a hair west of north, and the azimuth that \<open>Satellite::altaz\<close> returns is 360,
  outside \<open>[0, 360)\<close>.  \<open>Sun::altaz\<close> has the same body.
\<close>

theorem azimuth_rounds_to_360:
  "snd (Satellite_altaz_fl to_double (sat_at (7000, - 1 / 10 ^ 13, 500)) (obs_at (6378, 0, 0)))
     = Inr 360"
proof -
  define R0 where "R0 = to_double (7000 - 6378)"
  define R1 where "R1 = to_double (- 1 / 10 ^ 13 - 0)"
  define R2 where "R2 = to_double (500 - 0)"
  define r where "r = to_double (sqrt (to_double (to_double (to_double (R0 * R0) + to_double (R1 * R1))
                                        + to_double (R2 * R2))))"
  have R0: "0 < R0" unfolding R0_def using to_double_pos[of "7000 - 6378"] by simp
  have R1: "R1 < 0" "- (1001 / 10 ^ 16) \<le> R1"
    unfolding R1_def using to_double_neg[of "- 1 / 10 ^ 13 - 0"] by simp_all
  have R2: "0 < R2" "4995 / 10 \<le> R2"
    unfolding R2_def using to_double_pos[of "500 - 0"] by simp_all
  have s0: "0 < to_double (R0 * R0)" using to_double_pos[of "R0 * R0"] R0 by simp
  have s1: "0 < to_double (R1 * R1)"
    using to_double_pos[of "R1 * R1"] R1(1) by (simp add: mult_neg_neg)
  have s2: "0 < to_double (R2 * R2)" using to_double_pos[of "R2 * R2"] R2(1) by simp
  have s01: "0 < to_double (to_double (R0 * R0) + to_double (R1 * R1))"
    using to_double_pos[of "to_double (R0 * R0) + to_double (R1 * R1)"] s0 s1 by simp
  have ss: "0 < to_double (to_double (to_double (R0 * R0) + to_double (R1 * R1)) + to_double (R2 * R2))"
    using to_double_pos[of "to_double (to_double (R0 * R0) + to_double (R1 * R1)) + to_double (R2 * R2)"]
      s01 s2 by simp
  have r: "0 < r"
    unfolding r_def
    using to_double_pos[of "sqrt (to_double (to_double (to_double (R0 * R0) + to_double (R1 * R1))
                                   + to_double (R2 * R2)))"] ss
    by simp
  define Q0 where "Q0 = to_double (R0 / r)"
  define Q1 where "Q1 = to_double (R1 / r)"
  define Q2 where "Q2 = to_double (R2 / r)"
  define e where "e = dot_fl to_double (Q0, Q1, Q2) (0, 1, 0)"
  define n where "n = dot_fl to_double (Q0, Q1, Q2) (0, 0, 1)"
  define w where "w = - R1 / r"
  define v where "v = R2 / r"
  have neg: "R1 / r < 0" using R1(1) r by (simp add: divide_neg_pos)
  have w: "0 < w" using neg by (simp add: w_def)
  have v: "0 < v" using R2(1) r by (simp add: v_def)
  from neg have Q1: "Q1 < 0" "(1001 / 1000) * (R1 / r) \<le> Q1"
    unfolding Q1_def using to_double_neg[of "R1 / r"] by simp_all
  have e3: "e < 0" "(1004 / 1000) * Q1 \<le> e"
    unfolding e_def dot_fl_east using to_double_neg3[OF Q1(1)] by simp_all
  have "R1 / r = - w" by (simp add: w_def)
  with Q1(2) e3(2) w have ew: "- e \<le> (1006 / 1000) * w" by linarith
  have "0 < R2 / r" using R2(1) r by simp
  then have Q2: "0 < Q2" "(999 / 1000) * v \<le> Q2"
    unfolding Q2_def v_def using to_double_pos[of "R2 / r"] by simp_all
  have "(998 / 1000) * Q2 \<le> n"
    unfolding n_def dot_fl_north using Q2(1) by (rule to_double_pos2)
  with Q2 v have nv: "(997 / 1000) * v \<le> n" by linarith
  have n0: "0 < n" using nv v by linarith
  have "- e / n \<le> ((1006 / 1000) * w) / ((997 / 1000) * v)"
    using ew nv e3(1) v by (intro frac_le) simp_all
  also have "\<dots> = (1006 / 997) * (- R1 / R2)"
    using r R2(1) by (simp add: w_def v_def field_simps)
  also have "- R1 / R2 \<le> (1001 / 10 ^ 16) / (4995 / 10)"
    using R1 R2 by (intro frac_le) simp_all
  finally have ratio: "- e / n \<le> 203 / 10 ^ 18"
    by (simp add: field_simps)
  have tiny: "DEGREES_fl to_double (to_double (atan2 e n)) < 0"
      "- (1 / 2 ^ 46) < DEGREES_fl to_double (to_double (atan2 e n))"
    using tiny_azimuth[OF n0 e3(1) ratio] by simp_all
  have "to_double (DEGREES_fl to_double (to_double (atan2 e n)) + 360) = 360"
    using tiny by (intro to_double_360) simp_all
  moreover have "snd (altaz_fl to_double (obs_at (6378, 0, 0)) (7000, - 1 / 10 ^ 13, 500))
      = Inr (if DEGREES_fl to_double (to_double (atan2 e n)) < 0
             then to_double (DEGREES_fl to_double (to_double (atan2 e n)) + 360)
             else DEGREES_fl to_double (to_double (atan2 e n)))"
  proof (rule altaz_fl_azimuth[where ?R0.0 = R0 and ?R1.0 = R1 and ?R2.0 = R2 and r = r
        and Q = "(Q0, Q1, Q2)" and ?O0.0 = 6378 and ?O1.0 = 0 and ?O2.0 = 0])
    show "obs_O (obs_at (6378, 0, 0)) = (6378, 0, 0)" by simp
    show "R0 = to_double (7000 - 6378)" by (rule R0_def)
    show "R1 = to_double (- 1 / 10 ^ 13 - 0)" by (rule R1_def)
    show "R2 = to_double (500 - 0)" by (rule R2_def)
    show "r = to_double (sqrt (to_double (to_double (to_double (R0 * R0) + to_double (R1 * R1))
                                + to_double (R2 * R2))))" by (rule r_def)
    show "r \<noteq> 0" using r by simp
    show "(Q0, Q1, Q2) = (to_double (R0 / r), to_double (R1 / r), to_double (R2 / r))"
      by (simp add: Q0_def Q1_def Q2_def)
    show "DEGREES_fl to_double (to_double (atan2 e n)) =
          DEGREES_fl to_double (to_double (atan2
            (dot_fl to_double (Q0, Q1, Q2) (obs_E (obs_at (6378, 0, 0))))
            (dot_fl to_double (Q0, Q1, Q2) (obs_N (obs_at (6378, 0, 0))))))"
      by (simp add: e_def n_def)
  qed
  ultimately have "snd (altaz_fl to_double (obs_at (6378, 0, 0)) (7000, - 1 / 10 ^ 13, 500)) = Inr 360"
    using tiny(1) by simp
  then show ?thesis by (simp add: Satellite_altaz_fl_def)
qed

text \<open>
  C9: when the satellite's Earth-fixed position is the observer's position, the length
  \<open>r\<close> of the line of sight is 0, \<open>Satellite::altaz\<close> divides by it, and both outputs are
  NaN: no branch of the function returns a number for the altitude or the azimuth.
\<close>

theorem altaz_degenerate:
  assumes "sat_S sat = obs_O obs"
  shows "Satellite_altaz sat obs = (Inl NaN, Inl NaN)"
  using assms by (cases "obs_O obs") (simp add: Satellite_altaz_def altaz_def vsub_def)

theorem altaz_degenerate_witness:
  "Satellite_altaz (sat_at (6378, 0, 0)) (obs_at (6378, 0, 0)) = (Inl NaN, Inl NaN)"
  using altaz_degenerate[of "sat_at (6378, 0, 0)" "obs_at (6378, 0, 0)"] by simp

section \<open>Claim C10: the Sun's vectors\<close>

lemma rot_norm: "(x * c - y * s) * (x * c - y * s) + (x * s + y * c) * (x * s + y * c)
   = (x * x + y * y) * (c * c + s * s)" for x y c s :: real
  by algebra

lemma sun_vec_norm:
  "dot (cos t, sin t * cos i, sin t * sin i) (cos t, sin t * cos i, sin t * sin i) = 1"
proof -
  have "cos t * cos t + sin t * cos i * (sin t * cos i) + sin t * sin i * (sin t * sin i)
     = cos t * cos t + (sin t * sin t) * (cos i * cos i + sin i * sin i)"
    by algebra
  then show ?thesis by (simp only: dot_def prod.case sq_sum1 mult_1_right)
qed

lemma cauchy_schwarz3: "dot a b * dot a b \<le> dot a a * dot b b"
proof -
  obtain a0 a1 a2 where a: "a = (a0, a1, a2)" by (cases a) auto
  obtain b0 b1 b2 where b: "b = (b0, b1, b2)" by (cases b) auto
  have "dot a a * dot b b - dot a b * dot a b
      = (a0 * b1 - a1 * b0) * (a0 * b1 - a1 * b0) + (a0 * b2 - a2 * b0) * (a0 * b2 - a2 * b0)
        + (a1 * b2 - a2 * b1) * (a1 * b2 - a2 * b1)"
    unfolding a b dot_def prod.case by algebra
  moreover have "0 \<le> (a0 * b1 - a1 * b0) * (a0 * b1 - a1 * b0) + (a0 * b2 - a2 * b0) * (a0 * b2 - a2 * b0)
        + (a1 * b2 - a2 * b1) * (a1 * b2 - a2 * b1)"
    by (intro add_nonneg_nonneg zero_le_square)
  ultimately show ?thesis by linarith
qed

lemma dot_self_nonneg: "0 \<le> dot a a"
  by (cases a) (auto simp: dot_def intro!: add_nonneg_nonneg)

lemma dot_vsub: "dot (vsub a b) (vsub a b) = dot a a - 2 * dot a b + dot b b"
  by (cases a, cases b) (simp add: dot_def vsub_def algebra_simps)

lemma dot_le_vlen: "\<bar>dot a b\<bar> \<le> vlen a * vlen b"
proof -
  have "\<bar>dot a b\<bar> = sqrt (dot a b * dot a b)" by simp
  also have "\<dots> \<le> sqrt (dot a a * dot b b)"
    using cauchy_schwarz3[of a b] by (rule real_sqrt_le_mono)
  also have "\<dots> = vlen a * vlen b" by (simp add: vlen_def real_sqrt_mult)
  finally show ?thesis .
qed

lemma vlen_sq: "vlen a * vlen a = dot a a"
  using dot_self_nonneg[of a] by (simp add: vlen_def)

lemma vlen_nonneg: "0 \<le> vlen a"
  using dot_self_nonneg[of a] by (simp add: vlen_def)

text \<open>A unit vector minus \<open>p\<close> has a length within 1 of the length of \<open>p\<close>.\<close>

lemma vlen_vsub_unit:
  assumes "vlen h = 1"
  shows "\<bar>vlen (vsub h p) - vlen p\<bar> \<le> 1"
proof -
  define x where "x = vlen (vsub h p)"
  define y where "y = vlen p"
  have x0: "0 \<le> x" and y0: "0 \<le> y" by (simp_all add: x_def y_def vlen_nonneg)
  have hh: "dot h h = 1" using assms vlen_sq[of h] by simp
  have d: "\<bar>dot h p\<bar> \<le> y" using dot_le_vlen[of h p] assms by (simp add: y_def)
  have "x * x = dot h h - 2 * dot h p + dot p p"
    unfolding x_def vlen_sq by (rule dot_vsub)
  then have xx: "x * x = 1 - 2 * dot h p + y * y"
    by (simp add: hh y_def vlen_sq)
  have up: "x * x \<le> (y + 1) * (y + 1)" using xx d by (simp add: algebra_simps)
  have lo: "(y - 1) * (y - 1) \<le> x * x" using xx d by (simp add: algebra_simps)
  have "x \<le> y + 1"
  proof (rule ccontr)
    assume "\<not> x \<le> y + 1"
    then have "y + 1 < x" by simp
    then have "(y + 1) * (y + 1) < x * x" using y0 by (intro mult_strict_mono) simp_all
    with up show False by simp
  qed
  moreover have "y - 1 \<le> x"
  proof (rule ccontr)
    assume "\<not> y - 1 \<le> x"
    then have "x < y - 1" by simp
    then have "x * x < (y - 1) * (y - 1)" using x0 by (intro mult_strict_mono) simp_all
    with lo show False by simp
  qed
  ultimately show ?thesis unfolding x_def y_def by linarith
qed

text \<open>
  C10: after \<open>Sun::predict\<close>, for every date and time, the vectors \<open>SUN\<close> and \<open>H\<close> have
  length exactly 1.  \<open>Sun::altaz\<close> takes the look angles of \<open>H\<close> as if it were a position:
  the vector it normalises is \<open>H\<close> minus the observer's position \<open>O\<close>, whose length
  differs from the length of \<open>O\<close> by at most 1.
\<close>

theorem sun_is_unit_direction:
  "vlen (SUN (Sun_predict c dt)) = 1 \<and> vlen (H (Sun_predict c dt)) = 1 \<and>
   Sun_altaz (Sun_predict c dt) obs = altaz obs (H (Sun_predict c dt)) \<and>
   \<bar>vlen (vsub (H (Sun_predict c dt)) (obs_O obs)) - vlen (obs_O obs)\<bar> \<le> 1"
proof -
  define t where "t = of_int (DN dt - fnday (trunc YG) 1 0) + TN dt"
  define tas where "tas = RADIANS G0 + t * WW c + pi + EQC1 * sin (RADIANS (MAS0 + t * MASD))
                           + EQC2 * sin (2 * RADIANS (MAS0 + t * MASD))"
  define g where "g = - (RADIANS G0 + t * WE c)"
  define x where "x = cos tas"
  define y where "y = sin tas * CNS"
  define z where "z = sin tas * SNS"
  have S: "SUN (Sun_predict c dt) = (x, y, z)"
    and Hv: "H (Sun_predict c dt) = (x * cos g - y * sin g, x * sin g + y * cos g, z)"
    unfolding Sun_predict_def Let_def x_def y_def z_def g_def tas_def t_def by simp_all
  have s1: "dot (x, y, z) (x, y, z) = 1"
    unfolding x_def y_def z_def CNS_def SNS_def by (rule sun_vec_norm)
  then have xyz: "x * x + y * y + z * z = 1" by (simp add: dot_def)
  have "dot (x * cos g - y * sin g, x * sin g + y * cos g, z)
            (x * cos g - y * sin g, x * sin g + y * cos g, z)
      = (x * x + y * y) * (cos g * cos g + sin g * sin g) + z * z"
    unfolding dot_def prod.case rot_norm ..
  then have s2: "dot (x * cos g - y * sin g, x * sin g + y * cos g, z)
                     (x * cos g - y * sin g, x * sin g + y * cos g, z) = 1"
    using xyz by (simp only: sq_sum1 mult_1_right)
  have u1: "vlen (SUN (Sun_predict c dt)) = 1" unfolding S vlen_def s1 by simp
  have u2: "vlen (H (Sun_predict c dt)) = 1" unfolding Hv vlen_def s2 by simp
  show ?thesis
    using u1 u2 vlen_vsub_unit[OF u2, of "obs_O obs"] by (simp add: Sun_altaz_def)
qed

section \<open>Claims C1 and C3: the Newton-Raphson loop of Satellite::predict\<close>

subsection \<open>Facts about sine and cosine\<close>

lemma sin_tangent_above:
  fixes a b :: real
  assumes a: "0 \<le> a" "a \<le> pi" and b: "0 \<le> b" "b \<le> pi"
  shows "sin b \<le> sin a + (b - a) * cos a"
proof -
  consider "a < b" | "b < a" | "a = b" by linarith
  then show ?thesis
  proof cases
    case 1
    have "\<exists>z. a < z \<and> z < b \<and> sin b - sin a = (b - a) * cos z"
      by (rule MVT2[OF 1]) (auto intro: derivative_eq_intros)
    then obtain z where z: "a < z" "z < b" "sin b - sin a = (b - a) * cos z" by blast
    have "cos z \<le> cos a" using a b z by (intro cos_monotone_0_pi_le) simp_all
    then have "(b - a) * cos z \<le> (b - a) * cos a" using 1 by (intro mult_left_mono) simp_all
    with z(3) show ?thesis by linarith
  next
    case 2
    have "\<exists>z. b < z \<and> z < a \<and> sin a - sin b = (a - b) * cos z"
      by (rule MVT2[OF 2]) (auto intro: derivative_eq_intros)
    then obtain z where z: "b < z" "z < a" "sin a - sin b = (a - b) * cos z" by blast
    have "cos a \<le> cos z" using a b z by (intro cos_monotone_0_pi_le) simp_all
    then have "(a - b) * cos a \<le> (a - b) * cos z" using 2 by (intro mult_left_mono) simp_all
    with z(3) show ?thesis by (simp add: algebra_simps)
  next
    case 3
    then show ?thesis by simp
  qed
qed

lemma cos_lower: "1 - t * t / 2 \<le> cos t" for t :: real
proof -
  have "\<bar>sin (t / 2)\<bar> \<le> \<bar>t / 2\<bar>" by (rule abs_sin_x_le_abs_x)
  then have "\<bar>sin (t / 2)\<bar> * \<bar>sin (t / 2)\<bar> \<le> \<bar>t / 2\<bar> * \<bar>t / 2\<bar>"
    by (intro mult_mono) simp_all
  then have "sin (t / 2) * sin (t / 2) \<le> t * t / 4" by (simp add: abs_mult_self_eq)
  moreover have "cos t = 1 - 2 * (sin (t / 2) * sin (t / 2))"
    using cos_double_sin[of "t / 2"] by (simp add: power2_eq_square)
  ultimately show ?thesis by linarith
qed

lemma one_minus_cos_le: "1 - cos t \<le> t * t / 2" for t :: real
  using cos_lower[of t] by linarith

lemma sin_minus_self_bound: "\<bar>sin d - d\<bar> \<le> \<bar>d\<bar> * \<bar>d\<bar> * \<bar>d\<bar> / 6" for d :: real
proof -
  have "(\<Sum>m<3. sin_coeff m * d ^ m) = d"
    by (simp add: sin_coeff_def numeral_3_eq_3)
  moreover have "inverse (fact 3) * \<bar>d\<bar> ^ 3 = \<bar>d\<bar> * \<bar>d\<bar> * \<bar>d\<bar> / 6"
    by (simp add: fact_numeral power3_eq_cube)
  ultimately show ?thesis using Maclaurin_sin_bound[of d 3] by simp
qed

text \<open>The error of the tangent to the sine over a step \<open>d\<close>.\<close>

lemma sin_second_order:
  fixes x d :: real
  assumes "\<bar>d\<bar> \<le> 1"
  shows "\<bar>sin x - sin (x - d) - d * cos x\<bar> \<le> d * d"
proof -
  have e: "sin x - sin (x - d) - d * cos x = sin x * (1 - cos d) + cos x * (sin d - d)"
    unfolding sin_diff by algebra
  have c0: "0 \<le> 1 - cos d" by simp
  have 1: "\<bar>sin x * (1 - cos d)\<bar> \<le> d * d / 2"
  proof -
    have "\<bar>sin x * (1 - cos d)\<bar> = \<bar>sin x\<bar> * (1 - cos d)" using c0 by (simp add: abs_mult)
    also have "\<dots> \<le> 1 * (1 - cos d)" using c0 by (intro mult_right_mono) simp_all
    also have "\<dots> \<le> d * d / 2" using one_minus_cos_le[of d] by simp
    finally show ?thesis .
  qed
  have dd: "\<bar>d\<bar> * \<bar>d\<bar> = d * d" by (simp add: abs_mult_self_eq)
  have 2: "\<bar>cos x * (sin d - d)\<bar> \<le> d * d / 6"
  proof -
    have "\<bar>cos x * (sin d - d)\<bar> = \<bar>cos x\<bar> * \<bar>sin d - d\<bar>" by (simp add: abs_mult)
    also have "\<dots> \<le> 1 * \<bar>sin d - d\<bar>" by (intro mult_right_mono) simp_all
    also have "\<dots> \<le> \<bar>d\<bar> * \<bar>d\<bar> * \<bar>d\<bar> / 6" using sin_minus_self_bound[of d] by simp
    also have "\<dots> = (d * d) * \<bar>d\<bar> / 6" by (simp only: dd)
    also have "\<dots> \<le> (d * d) * 1 / 6" using assms by (intro divide_right_mono mult_left_mono) simp_all
    finally show ?thesis by simp
  qed
  have "\<bar>sin x - sin (x - d) - d * cos x\<bar> \<le> \<bar>sin x * (1 - cos d)\<bar> + \<bar>cos x * (sin d - d)\<bar>"
    unfolding e by (rule abs_triangle_ineq)
  also have "\<dots> \<le> d * d / 2 + d * d / 6" using 1 2 by linarith
  also have "\<dots> \<le> d * d" using zero_le_square[of d] by linarith
  finally show ?thesis .
qed

subsection \<open>One pass of the loop\<close>

lemma dnom_pos:
  fixes e x :: real
  assumes "0 \<le> e" "e \<le> 9/10"
  shows "1/10 \<le> 1 - e * cos x"
proof -
  have "e * cos x \<le> e * 1" using assms by (intro mult_left_mono) simp_all
  then show ?thesis using assms by linarith
qed

lemma newton_residual:
  fixes e x m d :: real
  assumes dn: "1 - e * cos x \<noteq> 0" and d: "d = (x - e * sin x - m) / (1 - e * cos x)"
  shows "(x - d) - e * sin (x - d) - m = e * (sin x - sin (x - d) - d * cos x)"
proof -
  have "d * (1 - e * cos x) = x - e * sin x - m" using dn d by simp
  then show ?thesis by (simp add: algebra_simps)
qed

lemma residual_small:
  fixes e x m d :: real
  assumes e: "0 \<le> e" "e \<le> 9/10" and d: "d = (x - e * sin x - m) / (1 - e * cos x)"
    and small: "\<bar>d\<bar> < 1 / 100000"
  shows "\<bar>(x - d) - e * sin (x - d) - m\<bar> < 1 / 100000"
proof -
  have dn: "1 - e * cos x \<noteq> 0" using dnom_pos[OF e, of x] by simp
  have d1: "\<bar>d\<bar> \<le> 1" using small by simp
  have "\<bar>d\<bar> * \<bar>d\<bar> \<le> (1 / 100000) * (1 / 100000)"
    using small by (intro mult_mono) simp_all
  then have dd: "d * d \<le> 1 / 10000000000" by (simp add: abs_mult_self_eq)
  have "\<bar>(x - d) - e * sin (x - d) - m\<bar> = e * \<bar>sin x - sin (x - d) - d * cos x\<bar>"
    unfolding newton_residual[OF dn d] using e by (simp add: abs_mult)
  also have "\<dots> \<le> e * (d * d)"
    using sin_second_order[OF d1, of x] e by (intro mult_left_mono) simp_all
  also have "\<dots> \<le> 1 * (d * d)" using e by (intro mult_right_mono) simp_all
  also have "\<dots> < 1 / 100000" using dd by simp
  finally show ?thesis .
qed

lemma kepler_iter_residual:
  assumes e: "0 \<le> e" "e \<le> 9/10"
  shows "kepler_iter n e m x = Some (ea, c, s, dn) \<Longrightarrow> \<bar>ea - e * sin ea - m\<bar> < 1 / 100000"
proof (induction n arbitrary: x)
  case 0
  then show ?case by simp
next
  case (Suc n)
  define d where "d = (x - e * sin x - m) / (1 - e * cos x)"
  show ?case
  proof (cases "\<bar>d\<bar> < 1 / 100000")
    case True
    then have "ea = x - d" using Suc.prems by (auto simp: Let_def d_def)
    then show ?thesis using residual_small[OF e d_def True] by simp
  next
    case False
    then have "kepler_iter n e m (x - d) = Some (ea, c, s, dn)"
      using Suc.prems by (simp add: Let_def d_def)
    then show ?thesis by (rule Suc.IH)
  qed
qed

lemma kepler_iter_loop:
  "kepler_iter n e m x = Some r \<Longrightarrow> kepler_loop e m x = Some r"
proof (induction n arbitrary: x)
  case 0
  then show ?case by simp
next
  case (Suc n)
  define d where "d = (x - e * sin x - m) / (1 - e * cos x)"
  show ?case
  proof (cases "\<bar>d\<bar> < 1 / 100000")
    case True
    then show ?thesis using Suc.prems
      by (subst kepler_loop.simps) (simp add: Let_def d_def)
  next
    case False
    then have "kepler_iter n e m (x - d) = Some r"
      using Suc.prems by (simp add: Let_def d_def)
    then have "kepler_loop e m (x - d) = Some r" by (rule Suc.IH)
    then show ?thesis using False
      by (subst kepler_loop.simps) (simp add: Let_def d_def)
  qed
qed

text \<open>
  For a mean anomaly \<open>m\<close> in \<open>[0, \<pi>]\<close>, once \<open>x\<close> is in \<open>[0, \<pi>]\<close> with
  \<open>x - e sin x - m \<ge> 0\<close>, a pass keeps both and moves \<open>x\<close> down by the correction
  \<open>d \<ge> 0\<close>: the sine is concave there.
\<close>

lemma newton_step_invariant:
  fixes e x m d :: real
  assumes e: "0 \<le> e" "e \<le> 9/10" and m: "0 \<le> m"
    and x: "0 \<le> x" "x \<le> pi" and fx: "0 \<le> x - e * sin x - m"
    and d: "d = (x - e * sin x - m) / (1 - e * cos x)"
  shows "0 \<le> d \<and> 0 \<le> x - d \<and> x - d \<le> pi \<and> 0 \<le> (x - d) - e * sin (x - d) - m"
proof -
  have dp: "0 < 1 - e * cos x" using dnom_pos[OF e, of x] by simp
  have d0: "0 \<le> d" unfolding d using fx dp by simp
  have dm: "d * (1 - e * cos x) = x - e * sin x - m" using dp d by simp
  have "sin 0 \<le> sin x + (0 - x) * cos x"
    using x by (intro sin_tangent_above) simp_all
  then have t: "0 \<le> sin x - x * cos x" by simp
  have "x * (1 - e * cos x) - d * (1 - e * cos x) = e * (sin x - x * cos x) + m"
    unfolding dm by (simp add: algebra_simps)
  moreover have "0 \<le> e * (sin x - x * cos x) + m" using e t m by simp
  ultimately have "0 \<le> (x - d) * (1 - e * cos x)" by (simp add: algebra_simps)
  then have xd0: "0 \<le> x - d" using dp by (simp add: zero_le_mult_iff)
  have xdpi: "x - d \<le> pi" using d0 x by linarith
  have "sin (x - d) \<le> sin x + ((x - d) - x) * cos x"
    using x xd0 xdpi by (intro sin_tangent_above) simp_all
  then have "0 \<le> sin x - sin (x - d) - d * cos x" by simp
  then have "0 \<le> e * (sin x - sin (x - d) - d * cos x)" using e by simp
  then have "0 \<le> (x - d) - e * sin (x - d) - m"
    using newton_residual[of e x d m] dp d by simp
  with d0 xd0 xdpi show ?thesis by simp
qed

lemma kepler_iter_from_invariant:
  fixes e m :: real
  assumes e: "0 \<le> e" "e \<le> 9/10" and m: "0 \<le> m"
  shows "0 \<le> x \<Longrightarrow> x \<le> pi \<Longrightarrow> 0 \<le> x - e * sin x - m \<Longrightarrow> x \<le> real n / 100000
     \<Longrightarrow> \<exists>r. kepler_iter (Suc n) e m x = Some r"
proof (induction n arbitrary: x)
  case 0
  then have x0: "x = 0" by simp
  with "0.prems" m have "m = 0" by simp
  with x0 show ?case by (simp add: Let_def)
next
  case (Suc n)
  define d where "d = (x - e * sin x - m) / (1 - e * cos x)"
  have inv: "0 \<le> d \<and> 0 \<le> x - d \<and> x - d \<le> pi \<and> 0 \<le> (x - d) - e * sin (x - d) - m"
    using e m Suc.prems(1,2,3) d_def by (rule newton_step_invariant)
  show ?case
  proof (cases "\<bar>d\<bar> < 1 / 100000")
    case True
    then show ?thesis by (simp add: Let_def d_def)
  next
    case False
    with inv have "1 / 100000 \<le> d" by simp
    then have "x - d \<le> real n / 100000" using Suc.prems(4) by (simp add: field_simps)
    with inv have "\<exists>r. kepler_iter (Suc n) e m (x - d) = Some r"
      by (intro Suc.IH) simp_all
    then obtain r where "kepler_iter (Suc n) e m (x - d) = Some r" ..
    then have "kepler_iter (Suc (Suc n)) e m x = Some r"
      using False by (subst kepler_iter.simps) (simp add: Let_def d_def)
    then show ?thesis ..
  qed
qed

subsection \<open>The first pass, from \<open>EA = M\<close>\<close>

text \<open>
  The first pass moves up from \<open>m\<close>.  It stays below \<open>\<pi>\<close> when \<open>e \<le> 0.9\<close>; this is
  \<open>e sin x \<le> x (1 + e cos x)\<close> on \<open>[0, \<pi>]\<close>, shown at the half angle.
\<close>

lemma half_angle_ineq:
  fixes t :: real
  assumes t: "0 \<le> t" "t \<le> pi / 2"
  shows "9 * (sin t * cos t) \<le> t * (1 + 18 * (cos t * cos t))"
proof -
  define s where "s = sin t"
  define c where "c = cos t"
  have s0: "0 \<le> s" unfolding s_def using t pi_gt_zero by (intro sin_ge_zero) linarith+
  have c0: "0 \<le> c" unfolding c_def using t by (intro cos_ge_zero) linarith+
  have st: "s \<le> t" unfolding s_def using t by (intro sin_x_le_x) simp
  have s1: "s \<le> 1" unfolding s_def by simp
  show ?thesis
  proof (cases "t \<le> 11/10")
    case True
    have "t * t \<le> (11/10) * (11/10)" using t True by (intro mult_mono) simp_all
    then have c3: "1/3 \<le> c" unfolding c_def using cos_lower[of t] by linarith
    have "0 \<le> (3 * c - 1) * (6 * c - 1)" using c3 by (intro mult_nonneg_nonneg) linarith+
    then have q: "9 * c \<le> 1 + 18 * (c * c)" by (simp add: algebra_simps)
    have "9 * (s * c) \<le> 9 * (t * c)" using st c0 by (simp add: mult_right_mono)
    also have "\<dots> = t * (9 * c)" by simp
    also have "\<dots> \<le> t * (1 + 18 * (c * c))" using q t by (intro mult_left_mono) simp_all
    finally show ?thesis unfolding s_def c_def .
  next
    case False
    then have t11: "11/10 \<le> t" by simp
    have "0 \<le> (c - 5/22) * (c - 5/22)" by simp
    then have q: "9 * c \<le> (11/10) * (1 + 18 * (c * c))" by (simp add: algebra_simps)
    have "9 * (s * c) \<le> 9 * (1 * c)" using s1 c0 by (intro mult_left_mono mult_right_mono) simp_all
    also have "\<dots> \<le> (11/10) * (1 + 18 * (c * c))" using q by simp
    also have "\<dots> \<le> t * (1 + 18 * (c * c))" using t11 by (intro mult_right_mono) simp_all
    finally show ?thesis unfolding s_def c_def .
  qed
qed

lemma key_ineq_double:
  fixes t :: real
  assumes t: "0 \<le> t" "t \<le> pi / 2"
  shows "(9/10) * (sin (2 * t) - (2 * t) * cos (2 * t)) \<le> 2 * t"
proof -
  define A where "A = 9 * (sin t * cos t)"
  define B where "B = t * (1 + 18 * (cos t * cos t))"
  define L where "L = (9/10) * (2 * sin t * cos t - (2 * t) * (2 * (cos t * cos t) - 1))"
  have "A \<le> B"
    unfolding A_def B_def using t by (rule half_angle_ineq)
  moreover have "L - 2 * t = A / 5 - B / 5"
    unfolding A_def B_def L_def by (simp add: algebra_simps)
  ultimately have "L \<le> 2 * t"
    by linarith
  then show ?thesis
    unfolding L_def by (simp only: sin_double cos_double_cos power2_eq_square)
qed

lemma key_ineq_09:
  fixes x :: real
  assumes x: "0 \<le> x" "x \<le> pi"
  shows "(9/10) * (sin x - x * cos x) \<le> x"
  using key_ineq_double[of "x / 2"] x by simp

lemma key_ineq:
  fixes x e :: real
  assumes x: "0 \<le> x" "x \<le> pi" and e: "0 \<le> e" "e \<le> 9/10"
  shows "e * sin x \<le> x * (1 + e * cos x)"
proof -
  have "sin 0 \<le> sin x + (0 - x) * cos x"
    using x by (intro sin_tangent_above) simp_all
  then have l: "0 \<le> sin x - x * cos x" by simp
  have "e * (sin x - x * cos x) \<le> (9/10) * (sin x - x * cos x)"
    using e l by (intro mult_right_mono) simp_all
  also have "\<dots> \<le> x" using x by (rule key_ineq_09)
  finally show ?thesis by (simp add: algebra_simps)
qed

lemma first_step:
  fixes e m d :: real
  assumes e: "0 \<le> e" "e \<le> 9/10" and m: "0 \<le> m" "m \<le> pi"
    and d: "d = (m - e * sin m - m) / (1 - e * cos m)"
  shows "0 \<le> m - d \<and> m - d \<le> pi \<and> 0 \<le> (m - d) - e * sin (m - d) - m"
proof -
  have dp: "0 < 1 - e * cos m" using dnom_pos[OF e, of m] by simp
  have sm: "0 \<le> sin m" using m by (intro sin_ge_zero)
  have d': "- d = e * sin m / (1 - e * cos m)" unfolding d by simp
  have dneg: "0 \<le> - d" unfolding d' using e sm dp by simp
  have "e * sin (pi - m) \<le> (pi - m) * (1 + e * cos (pi - m))"
    using m e by (intro key_ineq) simp_all
  then have "e * sin m \<le> (pi - m) * (1 - e * cos m)" by simp
  then have "- d \<le> pi - m" unfolding d' using dp by (simp add: pos_divide_le_eq)
  then have up: "m - d \<le> pi" by linarith
  have lo: "0 \<le> m - d" using dneg m by linarith
  have "sin (m - d) \<le> sin m + ((m - d) - m) * cos m"
    using m lo up by (intro sin_tangent_above) simp_all
  then have "0 \<le> sin m - sin (m - d) - d * cos m" by simp
  then have "0 \<le> e * (sin m - sin (m - d) - d * cos m)" using e by simp
  then have "0 \<le> (m - d) - e * sin (m - d) - m"
    using newton_residual[of e m d m] dp d by simp
  with lo up show ?thesis by simp
qed

lemma kepler_iter_half_revolution:
  fixes e m :: real
  assumes e: "0 \<le> e" "e \<le> 9/10" and m: "0 \<le> m" "m \<le> pi"
  shows "\<exists>n r. kepler_iter n e m m = Some r"
proof -
  define d where "d = (m - e * sin m - m) / (1 - e * cos m)"
  show ?thesis
  proof (cases "\<bar>d\<bar> < 1 / 100000")
    case True
    then have "\<exists>r. kepler_iter (Suc 0) e m m = Some r"
      by (simp add: Let_def d_def)
    then show ?thesis by blast
  next
    case False
    define N where "N = nat \<lceil>pi * 100000\<rceil>"
    have inv: "0 \<le> m - d \<and> m - d \<le> pi \<and> 0 \<le> (m - d) - e * sin (m - d) - m"
      using e m d_def by (rule first_step)
    have "pi * 100000 \<le> real N" unfolding N_def using pi_gt_zero
      by (simp add: of_nat_ceiling)
    then have "pi \<le> real N / 100000" by (simp add: field_simps)
    with inv have "m - d \<le> real N / 100000" by linarith
    with inv have "\<exists>r. kepler_iter (Suc N) e m (m - d) = Some r"
      using e m(1) by (intro kepler_iter_from_invariant) simp_all
    then obtain r where "kepler_iter (Suc N) e m (m - d) = Some r" ..
    then have "kepler_iter (Suc (Suc N)) e m m = Some r"
      using False by (subst kepler_iter.simps) (simp add: Let_def d_def)
    then show ?thesis by blast
  qed
qed

lemma kepler_iter_shift:
  "kepler_iter n e m x = Some r \<Longrightarrow>
     \<exists>r'. kepler_iter n e (m + 2 * pi * of_int k) (x + 2 * pi * of_int k) = Some r'"
proof (induction n arbitrary: x r)
  case 0
  then show ?case by simp
next
  case (Suc n)
  define d where "d = (x - e * sin x - m) / (1 - e * cos x)"
  have sc: "sin (x + 2 * pi * of_int k) = sin x" "cos (x + 2 * pi * of_int k) = cos x"
    by (simp_all add: sin_add cos_add)
  have d': "(x + 2 * pi * of_int k - e * sin x - (m + 2 * pi * of_int k)) / (1 - e * cos x) = d"
    by (simp add: d_def)
  show ?case
  proof (cases "\<bar>d\<bar> < 1 / 100000")
    case True
    then show ?thesis
      by (subst kepler_iter.simps) (simp only: Let_def sc d', simp)
  next
    case False
    then have "kepler_iter n e m (x - d) = Some r"
      using Suc.prems by (simp add: Let_def d_def)
    then have "\<exists>r'. kepler_iter n e (m + 2 * pi * of_int k) (x - d + 2 * pi * of_int k) = Some r'"
      by (rule Suc.IH)
    moreover have "x - d + 2 * pi * of_int k = x + 2 * pi * of_int k - d" by simp
    ultimately show ?thesis using False
      by (subst kepler_iter.simps) (simp only: Let_def sc d', simp)
  qed
qed

lemma kepler_iter_reflect:
  "kepler_iter n e m x = Some r \<Longrightarrow> \<exists>r'. kepler_iter n e (- m) (- x) = Some r'"
proof (induction n arbitrary: x r)
  case 0
  then show ?case by simp
next
  case (Suc n)
  define d where "d = (x - e * sin x - m) / (1 - e * cos x)"
  have "- x - e * sin (- x) - (- m) = - (x - e * sin x - m)" by simp
  then have d': "(- x - e * sin (- x) - (- m)) / (1 - e * cos (- x)) = - d"
    by (simp only: cos_minus d_def minus_divide_left)
  show ?case
  proof (cases "\<bar>d\<bar> < 1 / 100000")
    case True
    then show ?thesis
      by (subst kepler_iter.simps) (simp only: Let_def d', simp)
  next
    case False
    then have "kepler_iter n e m (x - d) = Some r"
      using Suc.prems by (simp add: Let_def d_def)
    then have "\<exists>r'. kepler_iter n e (- m) (- (x - d)) = Some r'"
      by (rule Suc.IH)
    moreover have "- (x - d) = - x - (- d)" by simp
    ultimately show ?thesis using False
      by (subst kepler_iter.simps) (simp only: Let_def d', simp)
  qed
qed

lemma kepler_iter_terminates:
  fixes e m :: real
  assumes e: "0 \<le> e" "e \<le> 9/10"
  shows "\<exists>n r. kepler_iter n e m m = Some r"
proof -
  define k where "k = \<lfloor>m / (2 * pi)\<rfloor>"
  define m0 where "m0 = m - 2 * pi * of_int k"
  have p: "0 < 2 * pi" using pi_gt_zero by simp
  have "of_int k \<le> m / (2 * pi)" "m / (2 * pi) < of_int k + 1"
    unfolding k_def by linarith+
  then have "of_int k * (2 * pi) \<le> m" "m < (of_int k + 1) * (2 * pi)"
    using p by (simp_all add: pos_le_divide_eq pos_divide_less_eq)
  then have m0: "0 \<le> m0" "m0 < 2 * pi"
    unfolding m0_def by (simp_all add: algebra_simps)
  show ?thesis
  proof (cases "m0 \<le> pi")
    case True
    obtain n r where "kepler_iter n e m0 m0 = Some r"
      using kepler_iter_half_revolution[OF e m0(1) True] by blast
    then have "\<exists>r'. kepler_iter n e (m0 + 2 * pi * of_int k) (m0 + 2 * pi * of_int k) = Some r'"
      by (rule kepler_iter_shift)
    then obtain r' where "kepler_iter n e (m0 + 2 * pi * of_int k) (m0 + 2 * pi * of_int k) = Some r'" ..
    moreover have "m0 + 2 * pi * of_int k = m" by (simp add: m0_def)
    ultimately have "kepler_iter n e m m = Some r'" by simp
    then show ?thesis by blast
  next
    case False
    define m1 where "m1 = 2 * pi - m0"
    have m1: "0 \<le> m1" "m1 \<le> pi" using m0 False by (simp_all add: m1_def)
    obtain n r where "kepler_iter n e m1 m1 = Some r"
      using kepler_iter_half_revolution[OF e m1] by blast
    then obtain r1 where "kepler_iter n e (- m1) (- m1) = Some r1"
      using kepler_iter_reflect by blast
    then have "\<exists>r'. kepler_iter n e (- m1 + 2 * pi * of_int (k + 1)) (- m1 + 2 * pi * of_int (k + 1)) = Some r'"
      by (rule kepler_iter_shift)
    then obtain r' where
      "kepler_iter n e (- m1 + 2 * pi * of_int (k + 1)) (- m1 + 2 * pi * of_int (k + 1)) = Some r'" ..
    moreover have "- m1 + 2 * pi * of_int (k + 1) = m"
      by (simp add: m1_def m0_def algebra_simps)
    ultimately have "kepler_iter n e m m = Some r'" by simp
    then show ?thesis by blast
  qed
qed


text \<open>
  C3: for every eccentricity in \<open>[0, 0.9]\<close> and every real mean anomaly, the loop started
  at \<open>EA = M\<close> leaves after finitely many passes, with a correction below \<open>1e-5\<close>; so
  \<open>predict\<close> returns for every date and every satellite with such an eccentricity.
\<close>

theorem predict_terminates:
  "(0 \<le> e \<and> e \<le> 9/10 \<longrightarrow> (\<exists>r. kepler_loop e m m = Some r)) \<and>
   (0 \<le> EC sat \<and> EC sat \<le> 9/10 \<longrightarrow> (\<exists>sat'. predict c dt sat = Some sat'))"
proof -
  have loop: "\<exists>r. kepler_loop e' m' m' = Some r" if "0 \<le> e'" "e' \<le> 9/10" for e' m'
    using kepler_iter_terminates[OF that, of m'] kepler_iter_loop by blast
  have "\<exists>sat'. predict c dt sat = Some sat'" if ec: "0 \<le> EC sat" "EC sat \<le> 9/10"
  proof -
    obtain t dtt m' dr where pm: "predict_M sat dt = (t, dtt, m', dr)"
      by (cases "predict_M sat dt") auto
    obtain r where "kepler_loop (EC sat) m' m' = Some r"
      using loop[OF ec] by blast
    moreover obtain ea c_ea s_ea dnom where "r = (ea, c_ea, s_ea, dnom)"
      by (cases r) auto
    ultimately have "kepler_loop (EC sat) m' m' = Some (ea, c_ea, s_ea, dnom)" by simp
    then show ?thesis
      unfolding predict_def Let_def pm by simp
  qed
  with loop show ?thesis by blast
qed

theorem predict_terminates_witness:
  "(\<exists>r. kepler_loop (9/10) 1 1 = Some r) \<and>
   (\<exists>sat'. predict sample_h \<lparr>DN = 735300, TN = 1/2\<rparr> (sat_at (0, 0, 0)) = Some sat')"
  using predict_terminates[of "9/10" 1 "sat_at (0, 0, 0)" sample_h "\<lparr>DN = 735300, TN = 1/2\<rparr>"]
  by simp

text \<open>
  C1: for every mean anomaly \<open>M\<close> and every eccentricity \<open>e\<close> in \<open>[0, 0.9]\<close>, the loop
  returns, and the eccentric anomaly \<open>EA\<close> it leaves satisfies
  \<open>|EA - e sin EA - M| < 1e-5\<close>.
\<close>

theorem kepler_loop_correct:
  assumes "0 \<le> e" "e \<le> 9/10"
  shows "\<exists>ea c s dn. kepler_loop e m m = Some (ea, c, s, dn) \<and>
                      \<bar>ea - e * sin ea - m\<bar> < 1 / 100000"
proof -
  obtain n r where r: "kepler_iter n e m m = Some r"
    using kepler_iter_terminates[OF assms, of m] by blast
  obtain ea c s dn where "r = (ea, c, s, dn)" by (cases r) auto
  with r have i: "kepler_iter n e m m = Some (ea, c, s, dn)" by simp
  then have "kepler_loop e m m = Some (ea, c, s, dn)" by (rule kepler_iter_loop)
  moreover have "\<bar>ea - e * sin ea - m\<bar> < 1 / 100000"
    using assms i by (rule kepler_iter_residual)
  ultimately show ?thesis by blast
qed

theorem kepler_loop_correct_witness:
  "\<exists>ea c s dn. kepler_loop (9/10) 1 1 = Some (ea, c, s, dn) \<and>
                \<bar>ea - 9/10 * sin ea - 1\<bar> < 1 / 100000"
  using kepler_loop_correct[of "9/10" 1] by simp

section \<open>Claim C8: fields with no number in them\<close>

lemma atol_no_long: "no_long s \<Longrightarrow> atol s = 0"
proof -
  assume a: "no_long s"
  obtain neg r where sr: "sign_of (dropWhile isspace s) = (neg, r)"
    by (cases "sign_of (dropWhile isspace s)") auto
  have "digits_val 0 r = 0"
  proof (cases r)
    case Nil
    then show ?thesis by simp
  next
    case (Cons c cs)
    with a sr have "\<not> isdigit c" by (simp add: no_long_def)
    with Cons show ?thesis by simp
  qed
  with sr show ?thesis by (simp add: atol_def)
qed

lemma strtod_no_double: "no_double s \<Longrightarrow> strtod s = 0"
proof -
  assume a: "no_double s"
  obtain neg r where sr: "sign_of (dropWhile isspace s) = (neg, r)"
    by (cases "sign_of (dropWhile isspace s)") auto
  from a sr have nd: "\<not> starts_decimal r" by (simp add: no_double_def)
  show ?thesis
  proof (cases r)
    case Nil
    with sr show ?thesis by (simp add: strtod_def Let_def)
  next
    case (Cons c cs)
    with nd have c: "\<not> isdigit c" by (simp add: starts_decimal_def)
    show ?thesis
    proof (cases "c = CHR ''.''")
      case False
      with sr Cons c show ?thesis by (simp add: strtod_def Let_def)
    next
      case True
      have "takeWhile isdigit cs = []"
      proof (cases cs)
        case Nil
        then show ?thesis by simp
      next
        case (Cons d ds)
        with nd \<open>r = c # cs\<close> True have "\<not> isdigit d" by (simp add: starts_decimal_def)
        with Cons show ?thesis by simp
      qed
      with sr Cons c True show ?thesis by (simp add: strtod_def Let_def)
    qed
  qed
qed

lemma getlong_no_long: "no_long (field c i0 i1) \<Longrightarrow> getlong c i0 i1 = 0"
  by (simp add: getlong_def atol_no_long)

lemma getdouble_no_double: "no_double (field c i0 i1) \<Longrightarrow> getdouble c i0 i1 = 0"
  by (simp add: getdouble_def strtod_no_double)

lemma junk_fields:
  "no_long (field junk_line1 18 20)" "no_double (field junk_line1 20 32)"
  "no_double (field junk_line1 33 43)" "no_long (field junk_line2 2 7)"
  "no_double (field junk_line2 8 16)" "no_double (field junk_line2 17 25)"
  "no_double (field junk_line2 26 33)" "no_double (field junk_line2 34 42)"
  "no_double (field junk_line2 43 51)" "no_double (field junk_line2 52 63)"
  "no_long (field junk_line2 63 68)"
  by code_simp+

text \<open>
  C8, amended: for lines of 69 characters, a field with no parsable number in it is read
  as 0 by \<open>getlong\<close> and \<open>getdouble\<close>, and \<open>tle\<close>, which has no way to signal an error,
  stores what it computes from that 0: the value 0 for the catalogue number, the epoch
  day, the decay rate, the inclination, the right ascension, the eccentricity, the
  argument of perigee, the mean anomaly, the mean motion and the orbit number, and the
  year 2000 for the epoch year.
\<close>

theorem tle_unparsable_fields:
  assumes "length l1 = 69" "length l2 = 69"
  shows
  "(no_long (field l2 2 7) \<longrightarrow> sat_N (tle c nm l1 l2 sat) = 0) \<and>
   (no_long (field l1 18 20) \<longrightarrow> YE (tle c nm l1 l2 sat) = 2000) \<and>
   (no_double (field l1 20 32) \<longrightarrow>
      TE (tle c nm l1 l2 sat) = 0 \<and> DE (tle c nm l1 l2 sat) = fnday (YE (tle c nm l1 l2 sat)) 1 0) \<and>
   (no_double (field l1 33 43) \<longrightarrow> M2 (tle c nm l1 l2 sat) = 0) \<and>
   (no_double (field l2 8 16) \<longrightarrow> IN (tle c nm l1 l2 sat) = 0) \<and>
   (no_double (field l2 17 25) \<longrightarrow> RA (tle c nm l1 l2 sat) = 0) \<and>
   (no_double (field l2 26 33) \<longrightarrow> EC (tle c nm l1 l2 sat) = 0) \<and>
   (no_double (field l2 34 42) \<longrightarrow> WP (tle c nm l1 l2 sat) = 0) \<and>
   (no_double (field l2 43 51) \<longrightarrow> MA (tle c nm l1 l2 sat) = 0) \<and>
   (no_double (field l2 52 63) \<longrightarrow> MM (tle c nm l1 l2 sat) = 0) \<and>
   (no_long (field l2 63 68) \<longrightarrow> RV (tle c nm l1 l2 sat) = 0)"
proof -
  have N: "sat_N (tle c nm l1 l2 sat) = getlong l2 2 7"
    and Y: "YE (tle c nm l1 l2 sat) =
              (if getlong l1 18 20 < 58 then getlong l1 18 20 + 2000 else getlong l1 18 20 + 1900)"
    and T: "TE (tle c nm l1 l2 sat) = getdouble l1 20 32 - of_int (trunc (getdouble l1 20 32))"
    and D: "DE (tle c nm l1 l2 sat) =
              fnday (YE (tle c nm l1 l2 sat)) 1 0 + trunc (getdouble l1 20 32)"
    and M2: "M2 (tle c nm l1 l2 sat) = 2 * pi * getdouble l1 33 43"
    and I: "IN (tle c nm l1 l2 sat) = RADIANS (getdouble l2 8 16)"
    and R: "RA (tle c nm l1 l2 sat) = RADIANS (getdouble l2 17 25)"
    and E: "EC (tle c nm l1 l2 sat) = getdouble l2 26 33 / 10000000"
    and W: "WP (tle c nm l1 l2 sat) = RADIANS (getdouble l2 34 42)"
    and A: "MA (tle c nm l1 l2 sat) = RADIANS (getdouble l2 43 51)"
    and M: "MM (tle c nm l1 l2 sat) = 2 * pi * getdouble l2 52 63"
    and V: "RV (tle c nm l1 l2 sat) = getlong l2 63 68"
    by (simp_all add: tle_def Let_def)
  have z: "trunc 0 = 0" "RADIANS 0 = 0"
    by (simp_all add: trunc_def RADIANS_def)
  show ?thesis
    unfolding N Y T D M2 I R E W A M V
    by (intro conjI impI) (simp_all add: getlong_no_long getdouble_no_double z)
qed

theorem tle_unparsable_fields_witness:
  "length junk_line1 = 69 \<and> length junk_line2 = 69 \<and>
   no_long (field junk_line2 2 7) \<and> no_long (field junk_line1 18 20) \<and>
   no_double (field junk_line1 20 32) \<and> no_double (field junk_line1 33 43) \<and>
   no_double (field junk_line2 8 16) \<and> no_double (field junk_line2 17 25) \<and>
   no_double (field junk_line2 26 33) \<and> no_double (field junk_line2 34 42) \<and>
   no_double (field junk_line2 43 51) \<and> no_double (field junk_line2 52 63) \<and>
   no_long (field junk_line2 63 68) \<and>
   sat_N (tle sample_h [] junk_line1 junk_line2 (sat_at (0, 0, 0))) = 0 \<and>
   YE (tle sample_h [] junk_line1 junk_line2 (sat_at (0, 0, 0))) = 2000 \<and>
   TE (tle sample_h [] junk_line1 junk_line2 (sat_at (0, 0, 0))) = 0 \<and>
   M2 (tle sample_h [] junk_line1 junk_line2 (sat_at (0, 0, 0))) = 0 \<and>
   IN (tle sample_h [] junk_line1 junk_line2 (sat_at (0, 0, 0))) = 0 \<and>
   RA (tle sample_h [] junk_line1 junk_line2 (sat_at (0, 0, 0))) = 0 \<and>
   EC (tle sample_h [] junk_line1 junk_line2 (sat_at (0, 0, 0))) = 0 \<and>
   WP (tle sample_h [] junk_line1 junk_line2 (sat_at (0, 0, 0))) = 0 \<and>
   MA (tle sample_h [] junk_line1 junk_line2 (sat_at (0, 0, 0))) = 0 \<and>
   MM (tle sample_h [] junk_line1 junk_line2 (sat_at (0, 0, 0))) = 0 \<and>
   RV (tle sample_h [] junk_line1 junk_line2 (sat_at (0, 0, 0))) = 0"
  using tle_unparsable_fields[of junk_line1 junk_line2 sample_h "[]" "sat_at (0, 0, 0)"]
    junk_fields
  by simp

lemma field_replicate: "i1 \<le> n \<Longrightarrow> field (replicate n x) i0 i1 = replicate (i1 - i0) x"
  by (auto simp: field_def intro!: nth_equalityI)

lemma no_long_x: "0 < k \<Longrightarrow> no_long (replicate k (CHR ''x''))"
  by (cases k) (simp_all add: no_long_def isspace_def isdigit_def)

text \<open>
  C8 as stated fails for the epoch year: with no number in columns 19 to 20 of line 1,
  \<open>getlong\<close> returns 0, and \<open>tle\<close> stores \<open>YE = 2000\<close>, not 0.
\<close>

theorem tle_epoch_year_not_zero:
  "no_long (field (replicate 69 (CHR ''x'')) 18 20) \<and>
   YE (tle sample_h [] (replicate 69 (CHR ''x'')) (replicate 69 (CHR ''x'')) (sat_at (0, 0, 0))) \<noteq> 0"
proof -
  have n: "no_long (field (replicate 69 (CHR ''x'')) 18 20)"
    by (simp add: field_replicate no_long_x)
  then have "getlong (replicate 69 (CHR ''x'')) 18 20 = 0" by (rule getlong_no_long)
  then have "YE (tle sample_h [] (replicate 69 (CHR ''x'')) (replicate 69 (CHR ''x'')) (sat_at (0, 0, 0))) = 2000"
    by (simp add: tle_def Let_def)
  with n show ?thesis by simp
qed

end
